theory Spec2Isabelle
  imports Main "HOL-Library.Word"
begin

section \<open>Data model (src/types.ts)\<close>

text \<open>
  Strings are lists of 8-bit characters, read as the code points U+0000 to U+00FF.
  An optional field of a TypeScript interface is an \<open>option\<close>; \<open>null\<close> and
  \<open>undefined\<close> are both \<open>None\<close>. A JavaScript condition on a string is true
  exactly when the string is present and not empty.
\<close>

definition truthy :: "string option \<Rightarrow> bool" where
  "truthy s = (case s of None \<Rightarrow> False | Some t \<Rightarrow> t \<noteq> [])"

text \<open>
  Values of type \<open>any\<close> (tool arguments, tool results before serialisation, thrown
  values): the JSON values and \<open>undefined\<close>. Numbers are restricted to the integers that a
  JavaScript number holds exactly, the safe integers: a sign and a magnitude of
  53 bits (so there is a negative zero, as in JavaScript). The properties of an object
  are listed in the object's own enumeration order.
\<close>

datatype js =
    JUndefined
  | JNull
  | JBool bool
  | JNum bool "53 word"
  | JStr string
  | JArr "js list"
  | JObj "(string \<times> js) list"

record ToolCall =
  tc_id :: string
  tc_name :: string
  tc_args :: js

text \<open>
  \<open>result\<close> is declared a string; \<open>JSON.stringify\<close> hands back \<open>undefined\<close> for
  an \<open>undefined\<close> value, and the orchestrator stores whatever it hands back, so the field
  is optional here.
\<close>

record ToolResult =
  tr_callId :: string
  tr_result :: "string option"

datatype Role = User | Model | Tool

record Message =
  msg_id :: string
  role :: Role
  content :: "string option"
  toolCalls :: "ToolCall list option"
  toolResults :: "ToolResult list option"
  timestamp :: nat
  parentId :: "string option"
  childrenIds :: "string list"

text \<open>
  The mapping is a plain object (\<open>{}\<close>, an object spread, or the result of \<open>JSON.parse\<close>);
  its own properties are the nodes.
\<close>

type_synonym messageMap = "string \<rightharpoonup> Message"

text \<open>
  \<open>messageMap[key]\<close> reads a property, own or inherited. A key that is not an own property
  is looked up in \<open>Object.prototype\<close>, which has the properties named below: each of them
  is a built-in function, except \<open>__proto__\<close>, which reads as \<open>Object.prototype\<close> itself.
  Either way the value found is an object, so it counts as true in a condition, and it has
  none of the properties of a node: its \<open>parentId\<close> and \<open>childrenIds\<close> are
  \<open>undefined\<close>. For every other key the value is \<open>undefined\<close>. The names are those of the
  ECMAScript standard (with its annex for web browsers); an engine to whose
  \<open>Object.prototype\<close> a program has added properties is outside this model.
\<close>

definition object_prototype_keys :: "string list" where
  "object_prototype_keys =
     [''constructor'', ''__defineGetter__'', ''__defineSetter__'', ''hasOwnProperty'',
      ''__lookupGetter__'', ''__lookupSetter__'', ''isPrototypeOf'', ''propertyIsEnumerable'',
      ''toString'', ''valueOf'', ''__proto__'', ''toLocaleString'']"

datatype Property = Stored Message | Inherited string

definition lookup :: "messageMap \<Rightarrow> string \<Rightarrow> Property option" where
  "lookup messageMap key =
     (case messageMap key of
        Some node \<Rightarrow> Some (Stored node)
      | None \<Rightarrow> if key \<in> set object_prototype_keys then Some (Inherited key) else None)"

fun prop_parentId :: "Property \<Rightarrow> string option" where
  "prop_parentId (Stored node) = parentId node"
| "prop_parentId (Inherited key) = None"

fun prop_childrenIds :: "Property \<Rightarrow> string list option" where
  "prop_childrenIds (Stored node) = Some (childrenIds node)"
| "prop_childrenIds (Inherited key) = None"

text \<open>
  The errors that the engine raises here are \<open>TypeError\<close>s: a property, given by its name,
  is read of a value that is \<open>undefined\<close> or \<open>null\<close>, or a value that is \<open>undefined\<close> is
  spread into an array.
\<close>

datatype TypeError = ReadProperty js string | Spread js

record VirtualMemory =
  mem_id :: string
  mem_name :: string
  mem_content :: string
  mem_active :: bool

record FunctionDeclaration =
  fd_name :: string
  fd_description :: "string option"
  fd_parameters :: js

record UserTool =
  tool_id :: string
  tool_definition :: FunctionDeclaration
  active :: bool
  implementation :: "string option"
  autoExecute :: "bool option"

text \<open>
  \<open>provider\<close> is declared \<open>'gemini' | 'openai'\<close>; a configuration read from an imported
  file is not checked against that type, so the field is a string here.
\<close>

record ModelConfig =
  model_id :: string
  model_name :: string
  provider :: string
  modelId :: string
  apiKey :: string
  baseUrl :: "string option"

record AppConfig =
  activeModelId :: string
  models :: "ModelConfig list"
  systemPrompt :: string
  memories :: "VirtualMemory list"
  tools :: "UserTool list"

section \<open>Message tree store (appendToTree, src/components/ChatInterface.tsx)\<close>

text \<open>
  The new node is stored by a computed key of the object literal, which makes it an own
  property whatever the id is. When \<open>updatedMap[parentId]\<close> is a built-in, the condition
  holds, and spreading its \<open>childrenIds\<close>, which is \<open>undefined\<close>, into the new array raises
  a \<open>TypeError\<close>.
\<close>

definition appendToTree ::
  "string option \<Rightarrow> Message \<Rightarrow> messageMap \<Rightarrow> TypeError + messageMap" where
  "appendToTree pid newMessage updatesMap =
     (let updatedMap = updatesMap(msg_id newMessage \<mapsto> newMessage)
      in if truthy pid
         then (case lookup updatedMap (the pid) of
                 None \<Rightarrow> Inr updatedMap
               | Some (Inherited key) \<Rightarrow> Inl (Spread JUndefined)
               | Some (Stored parent) \<Rightarrow>
                   Inr (updatedMap(the pid \<mapsto>
                          parent\<lparr>childrenIds := childrenIds parent @ [msg_id newMessage]\<rparr>)))
         else Inr updatedMap)"

text \<open>
  A sequence of append operations, each a pair of the parent id and the new node, applied from
  left to right; an append that raises ends the sequence.
\<close>

fun appends :: "messageMap \<Rightarrow> (string option \<times> Message) list \<Rightarrow> TypeError + messageMap" where
  "appends m [] = Inr m"
| "appends m ((pid, msg) # ops) =
     (case appendToTree pid msg m of
        Inl e \<Rightarrow> Inl e
      | Inr updatedMap \<Rightarrow> appends updatedMap ops)"

text \<open>
  What every call site of \<open>appendToTree\<close> provides: the node's id is new (a fresh UUID),
  its \<open>parentId\<close> field is the parent id passed along, and it has no children yet.
\<close>

fun caller_discipline :: "messageMap \<Rightarrow> (string option \<times> Message) list \<Rightarrow> bool" where
  "caller_discipline m [] = True"
| "caller_discipline m ((pid, msg) # ops) =
     (m (msg_id msg) = None \<and> parentId msg = pid \<and> childrenIds msg = []
      \<and> (case appendToTree pid msg m of
            Inl e \<Rightarrow> True
          | Inr updatedMap \<Rightarrow> caller_discipline updatedMap ops))"

text \<open>Every append names no parent or a parent that is stored at that moment.\<close>

fun parents_known :: "messageMap \<Rightarrow> (string option \<times> Message) list \<Rightarrow> bool" where
  "parents_known m [] = True"
| "parents_known m ((pid, msg) # ops) =
     ((case pid of None \<Rightarrow> True | Some p \<Rightarrow> m p \<noteq> None)
      \<and> (case appendToTree pid msg m of
            Inl e \<Rightarrow> True
          | Inr updatedMap \<Rightarrow> parents_known updatedMap ops))"

definition keys_are_ids :: "messageMap \<Rightarrow> bool" where
  "keys_are_ids m = (\<forall>k n. m k = Some n \<longrightarrow> msg_id n = k)"

definition parents_present :: "messageMap \<Rightarrow> bool" where
  "parents_present m = (\<forall>k n p. m k = Some n \<longrightarrow> parentId n = Some p \<longrightarrow> m p \<noteq> None)"

definition children_linked :: "messageMap \<Rightarrow> bool" where
  "children_linked m =
     (\<forall>k n c. m k = Some n \<longrightarrow> c \<in> set (childrenIds n) \<longrightarrow>
        (\<exists>cn. m c = Some cn \<and> parentId cn = Some (msg_id n)))"

section \<open>Thread projector (getThread, src/services/geminiService.ts)\<close>

text \<open>
  The \<open>while\<close> loop of \<open>getThread\<close>. \<open>thread.unshift(msg)\<close> puts the node in front.
  Nothing bounds the number of iterations, so the loop is a partial function: \<open>None\<close>
  means that it never returns.
\<close>

text \<open>
  The thread is declared a list of nodes; what the loop puts into it is whatever
  \<open>messageMap[currentId]\<close> gives, a node or a built-in. The \<open>parentId\<close> of a built-in is
  \<open>undefined\<close>, which ends the loop.
\<close>

partial_function (option) getThread_loop ::
  "messageMap \<Rightarrow> string option \<Rightarrow> Property list \<Rightarrow> Property list option" where
  "getThread_loop messageMap currentId thread =
     (if truthy currentId
      then (case lookup messageMap (the currentId) of
              None \<Rightarrow> Some thread
            | Some msg \<Rightarrow> getThread_loop messageMap (prop_parentId msg) (msg # thread))
      else Some thread)"

declare getThread_loop.simps [code]

definition getThread :: "messageMap \<Rightarrow> string option \<Rightarrow> Property list option" where
  "getThread messageMap headId =
     (if \<not> truthy headId \<or> lookup messageMap (the headId) = None then Some []
      else getThread_loop messageMap headId [])"

text \<open>
  The thread as the specification describes it, for comparison: a non-empty root-first list
  that ends with what is found under the head id, in which every element but the first is
  preceded by what is found under its \<open>parentId\<close>, and whose first element is a root: its
  \<open>parentId\<close> is null, undefined or empty, or nothing is found under it.
\<close>

fun linked :: "messageMap \<Rightarrow> Property list \<Rightarrow> bool" where
  "linked m [] = True"
| "linked m [x] = True"
| "linked m (x # y # ys) =
     (truthy (prop_parentId y) \<and> lookup m (the (prop_parentId y)) = Some x \<and> linked m (y # ys))"

definition is_root :: "messageMap \<Rightarrow> Property \<Rightarrow> bool" where
  "is_root m x = (\<not> truthy (prop_parentId x) \<or> lookup m (the (prop_parentId x)) = None)"

definition thread_of :: "messageMap \<Rightarrow> string \<Rightarrow> Property list \<Rightarrow> bool" where
  "thread_of m h t =
     (t \<noteq> [] \<and> lookup m h = Some (last t) \<and> is_root m (hd t) \<and> linked m t)"

text \<open>
  Every stored node has a thread of stored nodes: the parent walk from it reaches a root
  without meeting a built-in.
\<close>

definition all_threaded :: "messageMap \<Rightarrow> bool" where
  "all_threaded m = (\<forall>h n. m h = Some n \<longrightarrow> (\<exists>t. thread_of m h (map Stored t)))"

section \<open>Branch navigator (navigateBranch, src/components/ChatInterface.tsx)\<close>

datatype Direction = Prev | Next

text \<open>\<open>Array.prototype.indexOf\<close>: the first position of the element, or -1.\<close>

fun indexOf :: "'a list \<Rightarrow> 'a \<Rightarrow> int" where
  "indexOf [] x = -1"
| "indexOf (y # ys) x =
     (if y = x then 0 else (let i = indexOf ys x in if i < 0 then -1 else i + 1))"

text \<open>
  The \<open>while (true)\<close> loop that follows the latest child down to a leaf; \<open>None\<close> means
  that it never returns. When \<open>messageMap[ptr]\<close> is a built-in, reading the \<open>length\<close> of
  its \<open>childrenIds\<close> raises a \<open>TypeError\<close>.
\<close>

partial_function (option) find_leaf :: "messageMap \<Rightarrow> string \<Rightarrow> (TypeError + string) option" where
  "find_leaf messageMap ptr =
     (case lookup messageMap ptr of
        None \<Rightarrow> Some (Inr ptr)
      | Some (Inherited key) \<Rightarrow> Some (Inl (ReadProperty JUndefined ''length''))
      | Some (Stored node) \<Rightarrow>
          if childrenIds node = [] then Some (Inr ptr)
          else find_leaf messageMap (last (childrenIds node)))"

declare find_leaf.simps [code]

text \<open>
  \<open>navigateBranch\<close> ends with \<open>updateState(messageMap, ptr)\<close>, which keeps the mapping and
  sets the head; a bare \<open>return\<close> leaves the head as it is. The result is the head after the
  call, or the error raised, in which case no state is set. When \<open>messageMap[msgId]\<close> is a
  built-in, its \<open>parentId\<close> is \<open>undefined\<close> and the function returns; when
  \<open>messageMap[msg.parentId]\<close> is a built-in, calling \<open>indexOf\<close> on its \<open>childrenIds\<close>
  raises a \<open>TypeError\<close>. The clamped index is within the children list, since the node was
  found in it.
\<close>

definition navigateBranch ::
  "messageMap \<Rightarrow> string option \<Rightarrow> string \<Rightarrow> Direction \<Rightarrow> (TypeError + string option) option"
  where
  "navigateBranch messageMap headId msgId direction =
     (case lookup messageMap msgId of
        None \<Rightarrow> Some (Inr headId)
      | Some msg \<Rightarrow>
          if \<not> truthy (prop_parentId msg) then Some (Inr headId)
          else (case lookup messageMap (the (prop_parentId msg)) of
                  None \<Rightarrow> Some (Inr headId)
                | Some (Inherited key) \<Rightarrow> Some (Inl (ReadProperty JUndefined ''indexOf''))
                | Some (Stored parent) \<Rightarrow>
                    (let currentIndex = indexOf (childrenIds parent) msgId
                     in if currentIndex = -1 then Some (Inr headId)
                        else (let nextIndex0 =
                                    (if direction = Prev then currentIndex - 1
                                     else currentIndex + 1);
                                  nextIndex1 = (if nextIndex0 < 0 then 0 else nextIndex0);
                                  nextIndex =
                                    (if nextIndex1 \<ge> int (length (childrenIds parent))
                                     then int (length (childrenIds parent)) - 1
                                     else nextIndex1);
                                  nextChildId = childrenIds parent ! nat nextIndex
                              in map_option (map_sum id Some)
                                   (find_leaf messageMap nextChildId)))))"

text \<open>
  The descent as the specification describes it, for comparison: from a node through the last
  child at every level until a leaf (a node without children, or an id under which nothing is
  found). A descent that meets a built-in ends with the error.
\<close>

inductive descends :: "messageMap \<Rightarrow> string \<Rightarrow> TypeError + string \<Rightarrow> bool" where
  at_missing: "lookup m p = None \<Longrightarrow> descends m p (Inr p)"
| at_builtin: "lookup m p = Some (Inherited k) \<Longrightarrow> descends m p (Inl (ReadProperty JUndefined ''length''))"
| at_leaf: "m p = Some n \<Longrightarrow> childrenIds n = [] \<Longrightarrow> descends m p (Inr p)"
| down: "m p = Some n \<Longrightarrow> childrenIds n \<noteq> [] \<Longrightarrow> descends m (last (childrenIds n)) r
         \<Longrightarrow> descends m p r"

text \<open>Every descent from every id ends.\<close>

definition all_descend :: "messageMap \<Rightarrow> bool" where
  "all_descend m = (\<forall>p. \<exists>r. descends m p r)"

section \<open>Platform functions\<close>

text \<open>
  \<open>Array.prototype.join\<close>, \<open>String.prototype.split\<close> at a one-character separator,
  \<open>String.prototype.trim\<close> and \<open>String.prototype.startsWith\<close>. Among the code points up
  to U+00FF, \<open>trim\<close> removes tab, line feed, vertical tab, form feed, carriage return, space
  and no-break space.
\<close>

fun join :: "string \<Rightarrow> string list \<Rightarrow> string" where
  "join sep [] = []"
| "join sep [x] = x"
| "join sep (x # y # ys) = x @ sep @ join sep (y # ys)"

fun split :: "char \<Rightarrow> string \<Rightarrow> string list" where
  "split d [] = [[]]"
| "split d (c # cs) =
     (if c = d then [] # split d cs
      else (case split d cs of [] \<Rightarrow> [[c]] | l # ls \<Rightarrow> (c # l) # ls))"

definition is_ws :: "char \<Rightarrow> bool" where
  "is_ws c = (c \<in> {CHR 0x09, CHR 0x0A, CHR 0x0B, CHR 0x0C, CHR 0x0D, CHR 0x20, CHR 0xA0})"

definition trim :: "string \<Rightarrow> string" where
  "trim s = rev (dropWhile is_ws (rev (dropWhile is_ws s)))"

definition startsWith :: "string \<Rightarrow> string \<Rightarrow> bool" where
  "startsWith s p = (take (length p) s = p)"

text \<open>
  \<open>JSON.stringify\<close> on the values above: \<open>undefined\<close> has no serialisation (the result is
  \<open>undefined\<close>, here \<open>None\<close>), an \<open>undefined\<close> array element is written \<open>null\<close>, and a
  property whose value is \<open>undefined\<close> is left out. Strings are quoted, with the quote, the
  backslash and the control characters escaped.
\<close>

definition hex_digit :: "nat \<Rightarrow> char" where
  "hex_digit n = ''0123456789abcdef'' ! (n mod 16)"

definition escape_char :: "char \<Rightarrow> string" where
  "escape_char c =
     (if c = CHR 0x22 then [CHR 0x5C, CHR 0x22]
      else if c = CHR 0x5C then [CHR 0x5C, CHR 0x5C]
      else if c = CHR 0x08 then [CHR 0x5C, CHR ''b'']
      else if c = CHR 0x09 then [CHR 0x5C, CHR ''t'']
      else if c = CHR 0x0A then [CHR 0x5C, CHR ''n'']
      else if c = CHR 0x0C then [CHR 0x5C, CHR ''f'']
      else if c = CHR 0x0D then [CHR 0x5C, CHR ''r'']
      else if (of_char c :: nat) < 32
        then [CHR 0x5C, CHR ''u'', CHR ''0'', CHR ''0'',
              hex_digit (of_char c div 16), hex_digit (of_char c)]
      else [c])"

definition quote :: "string \<Rightarrow> string" where
  "quote s = [CHR 0x22] @ concat (map escape_char s) @ [CHR 0x22]"

function show_nat :: "nat \<Rightarrow> string" where
  "show_nat n =
     (if n < 10 then [char_of (48 + n)]
      else show_nat (n div 10) @ [char_of (48 + n mod 10)])"
  by pat_completeness auto
termination
  by (relation "measure (\<lambda>n. n)") auto

text \<open>A safe integer is written in decimal digits; negative zero is written \<open>0\<close>.\<close>

definition show_number :: "bool \<Rightarrow> 53 word \<Rightarrow> string" where
  "show_number negative magnitude =
     (if negative \<and> magnitude \<noteq> 0 then ''-'' @ show_nat (unat magnitude)
      else show_nat (unat magnitude))"

fun JSON_stringify :: "js \<Rightarrow> string option" where
  "JSON_stringify JUndefined = None"
| "JSON_stringify JNull = Some ''null''"
| "JSON_stringify (JBool b) = Some (if b then ''true'' else ''false'')"
| "JSON_stringify (JNum negative magnitude) = Some (show_number negative magnitude)"
| "JSON_stringify (JStr s) = Some (quote s)"
| "JSON_stringify (JArr vs) =
     Some (''['' @ join '','' (map (\<lambda>v. case JSON_stringify v of None \<Rightarrow> ''null'' | Some s \<Rightarrow> s) vs)
           @ '']'')"
| "JSON_stringify (JObj kvs) =
     Some (''{'' @ join '',''
             (concat (map (\<lambda>(k, v). case JSON_stringify v of
                                        None \<Rightarrow> []
                                      | Some s \<Rightarrow> [quote k @ '':'' @ s]) kvs))
           @ ''}'')"



section \<open>Provider adapters (src/services/geminiService.ts)\<close>

record StreamChunk =
  textDelta :: "string option"
  chunk_toolCalls :: "ToolCall list option"

subsection \<open>Request construction\<close>

definition memory_block :: "VirtualMemory \<Rightarrow> string" where
  "memory_block m =
     ''<Memory name='' @ [CHR 0x22] @ mem_name m @ [CHR 0x22] @ ''>'' @ [CHR 0x0A]
     @ mem_content m @ [CHR 0x0A] @ ''</Memory>''"

definition buildSystemInstruction :: "AppConfig \<Rightarrow> string" where
  "buildSystemInstruction config =
     (let activeMemories =
            join [CHR 0x0A, CHR 0x0A] (map memory_block (filter mem_active (memories config)))
      in if activeMemories = [] then systemPrompt config
         else systemPrompt config @ [CHR 0x0A, CHR 0x0A] @ ''=== VIRTUAL MEMORY CONTEXT ===''
              @ [CHR 0x0A] @ activeMemories)"

text \<open>
  The parts of a Gemini content: a text, a function call (name and arguments), a function
  response (id, name and the \<open>result\<close> of the response).
\<close>

datatype Part =
    TextPart string
  | FunctionCallPart string js
  | FunctionResponsePart string string js

record Content =
  content_role :: string
  parts :: "Part list"

text \<open>
  \<open>JSON.parse\<close> is a parameter of the functions that call it: it gives the parsed value, or
  \<open>None\<close> where it throws. In \<open>convertHistoryToGemini\<close> a stored result that does not parse
  is passed on as it is; a result that is \<open>undefined\<close> does not parse either.
\<close>

definition parse_result :: "(string \<Rightarrow> js option) \<Rightarrow> string option \<Rightarrow> js" where
  "parse_result JSON_parse r =
     (case r of
        None \<Rightarrow> JUndefined
      | Some s \<Rightarrow> (case JSON_parse s of Some v \<Rightarrow> v | None \<Rightarrow> JStr s))"

definition convertHistoryToGemini ::
  "(string \<Rightarrow> js option) \<Rightarrow> Message list \<Rightarrow> Content list" where
  "convertHistoryToGemini JSON_parse messages =
     map (\<lambda>msg.
       \<lparr>content_role =
          (if role msg = Tool then ''tool'' else if role msg = Model then ''model'' else ''user''),
        parts =
          (case role msg of
             Model \<Rightarrow>
               (if truthy (content msg) then [TextPart (the (content msg))] else [])
               @ (case toolCalls msg of
                    None \<Rightarrow> []
                  | Some tcs \<Rightarrow> map (\<lambda>tc. FunctionCallPart (tc_name tc) (tc_args tc)) tcs)
           | User \<Rightarrow> [TextPart (case content msg of None \<Rightarrow> [] | Some c \<Rightarrow> c)]
           | Tool \<Rightarrow>
               (case toolResults msg of
                  None \<Rightarrow> []
                | Some trs \<Rightarrow>
                    map (\<lambda>tr. FunctionResponsePart (tr_callId tr) (tr_callId tr)
                                 (parse_result JSON_parse (tr_result tr))) trs))\<rparr>)
       messages"

text \<open>
  The messages of an OpenAI-compatible request. The content of an assistant message is
  absent, \<open>null\<close> or a text.
\<close>

datatype ContentField = Absent | Null | Text string

record OpenAIToolCall =
  otc_id :: string
  otc_type :: string
  otc_name :: string
  otc_arguments :: "string option"

datatype OpenAIMessage =
    SystemMessage string
  | UserMessage string
  | AssistantMessage ContentField "OpenAIToolCall list option"
  | ToolMessage string "string option"

definition assistant_message :: "Message \<Rightarrow> OpenAIMessage" where
  "assistant_message m =
     (let content0 = (if truthy (content m) then Text (the (content m)) else Absent)
      in case toolCalls m of
           None \<Rightarrow> AssistantMessage content0 None
         | Some tcs \<Rightarrow>
             if length tcs > 0
             then AssistantMessage
                    (if content0 = Absent then Null else content0)
                    (Some (map (\<lambda>tc. \<lparr>otc_id = tc_id tc, otc_type = ''function'',
                                        otc_name = tc_name tc,
                                        otc_arguments = JSON_stringify (tc_args tc)\<rparr>) tcs))
             else AssistantMessage content0 None)"

definition convertHistoryToOpenAI :: "Message list \<Rightarrow> string \<Rightarrow> OpenAIMessage list" where
  "convertHistoryToOpenAI messages systemInstruction =
     SystemMessage systemInstruction #
     concat (map (\<lambda>m.
       case role m of
         User \<Rightarrow> [UserMessage (case content m of None \<Rightarrow> [] | Some c \<Rightarrow> c)]
       | Model \<Rightarrow> [assistant_message m]
       | Tool \<Rightarrow>
           (case toolResults m of
              None \<Rightarrow> []
            | Some trs \<Rightarrow> map (\<lambda>tr. ToolMessage (tr_callId tr) (tr_result tr)) trs))
       messages)"

record OpenAITool =
  ot_type :: string
  ot_name :: string
  ot_description :: "string option"
  ot_parameters :: js

definition mapToolsToOpenAI :: "FunctionDeclaration list \<Rightarrow> OpenAITool list" where
  "mapToolsToOpenAI ts =
     map (\<lambda>t. \<lparr>ot_type = ''function'', ot_name = fd_name t,
                ot_description = fd_description t, ot_parameters = fd_parameters t\<rparr>) ts"

text \<open>
  The request bodies: for the OpenAI-compatible provider the model, the messages, the
  \<open>stream\<close> flag and the tools; for Gemini the model, the contents, the system instruction and
  the tools. A tools field that is left out is \<open>None\<close>. A thrown \<open>Error\<close> is \<open>Inl\<close> of its
  message.
\<close>

datatype RawRequest =
    OpenAIBody string "OpenAIMessage list" bool "OpenAITool list option"
  | GeminiBody string "Content list" string "FunctionDeclaration list list option"

definition getRawRequest ::
  "(string \<Rightarrow> js option) \<Rightarrow> AppConfig \<Rightarrow> Message list \<Rightarrow> string + RawRequest" where
  "getRawRequest JSON_parse config messages =
     (case find (\<lambda>m. model_id m = activeModelId config) (models config) of
        None \<Rightarrow> Inl ''No active model selected.''
      | Some activeModel \<Rightarrow>
          (let systemInstruction = buildSystemInstruction config;
               activeTools = map tool_definition (filter active (tools config))
           in if provider activeModel = ''openai''
              then Inr (OpenAIBody (modelId activeModel)
                          (convertHistoryToOpenAI messages systemInstruction) True
                          (if length activeTools > 0 then Some (mapToolsToOpenAI activeTools)
                           else None))
              else Inr (GeminiBody (modelId activeModel)
                          (convertHistoryToGemini JSON_parse messages) systemInstruction
                          (if length activeTools > 0 then Some [activeTools] else None))))"

subsection \<open>Streaming\<close>

text \<open>
  \<open>sendMessageStream\<close> hands back the generator of one of the two adapters. The generator is
  represented by the call that creates it: the adapter and its four arguments. The history is
  passed on as it is, whatever its elements are.
\<close>

datatype 'h AdapterCall =
    StreamOpenAI ModelConfig "'h list" string "FunctionDeclaration list"
  | StreamGemini ModelConfig "'h list" string "FunctionDeclaration list"

definition sendMessageStream :: "AppConfig \<Rightarrow> 'h list \<Rightarrow> string + 'h AdapterCall" where
  "sendMessageStream config history =
     (case find (\<lambda>m. model_id m = activeModelId config) (models config) of
        None \<Rightarrow> Inl ''No active model selected.''
      | Some activeModel \<Rightarrow>
          if apiKey activeModel = [] then Inl ''API Key is missing for the selected model.''
          else (let systemInstruction = buildSystemInstruction config;
                    activeTools = map tool_definition (filter active (tools config))
                in if provider activeModel = ''openai''
                   then Inr (StreamOpenAI activeModel history systemInstruction activeTools)
                   else Inr (StreamGemini activeModel history systemInstruction activeTools)))"

subsection \<open>The OpenAI-compatible stream parser (streamOpenAI)\<close>

text \<open>
  What \<open>streamOpenAI\<close> reads from the parsed JSON of a data line, as the wire format types
  it: \<open>choices\<close>, the \<open>delta\<close> of each choice, and in a delta the \<open>content\<close> and the
  \<open>tool_calls\<close> fragments with their \<open>index\<close>, \<open>id\<close>, \<open>function.name\<close> and
  \<open>function.arguments\<close>. \<open>choices\<close> is \<open>None\<close> when the value has no such property, in
  which case reading \<open>json.choices[0]\<close> throws; the \<open>delta\<close> of a choice is \<open>None\<close> when
  the choice has none. JSON of other shapes is outside this model.
\<close>

record ToolCallDelta =
  tcd_index :: int
  tcd_id :: "string option"
  tcd_name :: "string option"
  tcd_arguments :: "string option"

record Delta =
  delta_content :: "string option"
  delta_tool_calls :: "ToolCallDelta list option"

record Payload =
  choices :: "Delta option list option"

text \<open>
  \<open>currentToolCalls\<close> is a \<open>Map\<close> from the index to the accumulated call. A \<open>Map\<close>
  keeps its keys in insertion order, and \<open>set\<close> on a key that is present keeps its place.
\<close>

record ToolCallAcc =
  acc_id :: string
  acc_name :: string
  acc_args :: string

type_synonym ToolCallMap = "(int \<times> ToolCallAcc) list"

fun map_set :: "ToolCallMap \<Rightarrow> int \<Rightarrow> ToolCallAcc \<Rightarrow> ToolCallMap" where
  "map_set [] k v = [(k, v)]"
| "map_set ((k', v') # kvs) k v =
     (if k' = k then (k, v) # kvs else (k', v') # map_set kvs k v)"

definition merge_delta :: "ToolCallMap \<Rightarrow> ToolCallDelta \<Rightarrow> ToolCallMap" where
  "merge_delta currentToolCalls tc =
     (let index = tcd_index tc;
          existing0 = (case map_of currentToolCalls index of
                         None \<Rightarrow> \<lparr>acc_id = [], acc_name = [], acc_args = []\<rparr>
                       | Some e \<Rightarrow> e);
          existing1 = (if truthy (tcd_id tc) then existing0\<lparr>acc_id := the (tcd_id tc)\<rparr>
                       else existing0);
          existing2 = (if truthy (tcd_name tc) then existing1\<lparr>acc_name := the (tcd_name tc)\<rparr>
                       else existing1);
          existing3 = (if truthy (tcd_arguments tc)
                       then existing2\<lparr>acc_args := acc_args existing2 @ the (tcd_arguments tc)\<rparr>
                       else existing2)
      in map_set currentToolCalls index existing3)"

definition snapshot :: "(string \<Rightarrow> js option) \<Rightarrow> ToolCallMap \<Rightarrow> ToolCall list" where
  "snapshot JSON_parse currentToolCalls =
     map (\<lambda>(k, tc). \<lparr>tc_id = acc_id tc, tc_name = acc_name tc,
                      tc_args = (case JSON_parse (acc_args tc) of
                                   None \<Rightarrow> JObj []
                                 | Some v \<Rightarrow> v)\<rparr>)
       currentToolCalls"

text \<open>
  The body of the \<open>try\<close> block for one parsed data line: the chunks it yields and the new
  \<open>currentToolCalls\<close>. When \<open>json.choices[0]\<close> throws, the \<open>catch\<close> swallows it: nothing
  is yielded and nothing has changed.
\<close>

definition handle_json ::
  "(string \<Rightarrow> js option) \<Rightarrow> ToolCallMap \<Rightarrow> Payload \<Rightarrow> StreamChunk list \<times> ToolCallMap" where
  "handle_json JSON_parse currentToolCalls json =
     (case choices json of
        None \<Rightarrow> ([], currentToolCalls)
      | Some cs \<Rightarrow>
          (case (case cs of [] \<Rightarrow> None | c # _ \<Rightarrow> c) of
             None \<Rightarrow> ([], currentToolCalls)
           | Some delta \<Rightarrow>
               (let text = (if truthy (delta_content delta)
                            then [\<lparr>textDelta = delta_content delta, chunk_toolCalls = None\<rparr>]
                            else [])
                in case delta_tool_calls delta of
                     None \<Rightarrow> (text, currentToolCalls)
                   | Some tcs \<Rightarrow>
                       (let updated = foldl merge_delta currentToolCalls tcs
                        in (text @ [\<lparr>textDelta = None,
                                     chunk_toolCalls = Some (snapshot JSON_parse updated)\<rparr>],
                            updated)))))"

text \<open>
  One line of the \<open>for (const line of lines)\<close> loop: \<open>None\<close> is the \<open>return\<close> at the
  \<open>[DONE]\<close> line, otherwise the chunks the line yields and the new \<open>currentToolCalls\<close>.
  \<open>parse_line\<close> stands for \<open>JSON.parse\<close> on the payload of a data line, read at the
  wire format; it is \<open>None\<close> where \<open>JSON.parse\<close> throws.
\<close>

definition process_line ::
  "(string \<Rightarrow> Payload option) \<Rightarrow> (string \<Rightarrow> js option) \<Rightarrow> ToolCallMap \<Rightarrow> string
   \<Rightarrow> (StreamChunk list \<times> ToolCallMap) option" where
  "process_line parse_line JSON_parse currentToolCalls line =
     (let trimmed = trim line
      in if \<not> startsWith trimmed ''data: '' then Some ([], currentToolCalls)
         else if trimmed = ''data: [DONE]'' then None
         else (case parse_line (drop 6 trimmed) of
                 None \<Rightarrow> Some ([], currentToolCalls)
               | Some json \<Rightarrow> Some (handle_json JSON_parse currentToolCalls json)))"

text \<open>
  The lines of one read, in order. The result is the chunks yielded, and the new
  \<open>currentToolCalls\<close> unless the generator has returned.
\<close>

fun process_lines ::
  "(string \<Rightarrow> Payload option) \<Rightarrow> (string \<Rightarrow> js option) \<Rightarrow> ToolCallMap \<Rightarrow> string list
   \<Rightarrow> StreamChunk list \<times> ToolCallMap option" where
  "process_lines parse_line JSON_parse currentToolCalls [] = ([], Some currentToolCalls)"
| "process_lines parse_line JSON_parse currentToolCalls (line # lines) =
     (case process_line parse_line JSON_parse currentToolCalls line of
        None \<Rightarrow> ([], None)
      | Some (chunks, updated) \<Rightarrow>
          (let (more, final) = process_lines parse_line JSON_parse updated lines
           in (chunks @ more, final)))"

text \<open>
  The \<open>while (true)\<close> loop over the reads of the response body, each read already decoded
  to text: the text is appended to the buffer, the buffer is split at line feeds, the last
  piece goes back to the buffer and the pieces before it are processed. The result is the
  chunks yielded until the body ends or the generator returns.
\<close>

fun read_loop ::
  "(string \<Rightarrow> Payload option) \<Rightarrow> (string \<Rightarrow> js option) \<Rightarrow> string \<Rightarrow> ToolCallMap
   \<Rightarrow> string list \<Rightarrow> StreamChunk list" where
  "read_loop parse_line JSON_parse buffer currentToolCalls [] = []"
| "read_loop parse_line JSON_parse buffer currentToolCalls (value # reads) =
     (let pieces = split (CHR 0x0A) (buffer @ value);
          buffer' = last pieces;
          lines = butlast pieces
      in case process_lines parse_line JSON_parse currentToolCalls lines of
           (chunks, None) \<Rightarrow> chunks
         | (chunks, Some updated) \<Rightarrow>
             chunks @ read_loop parse_line JSON_parse buffer' updated reads)"

text \<open>
  The response of \<open>fetch\<close>, as far as \<open>streamOpenAI\<close> looks at it: the request failed, or
  there is a response with its \<open>ok\<close> flag, status, status text, the \<open>error.message\<close> of
  its JSON body if it has one, and the reads of its body if it has a reader. What a stream
  delivers to its consumer is a list of chunks and then, if it throws, the message of the
  error.
\<close>

datatype FetchResult =
    FetchFailed "string option"
  | Response bool nat string "string option" "string list option"

definition streamOpenAI ::
  "(string \<Rightarrow> Payload option) \<Rightarrow> (string \<Rightarrow> js option) \<Rightarrow> FetchResult
   \<Rightarrow> StreamChunk list \<times> string option option" where
  "streamOpenAI parse_line JSON_parse res =
     (case res of
        FetchFailed message \<Rightarrow> ([], Some message)
      | Response ok status statusText errJsonMessage body \<Rightarrow>
          if \<not> ok
          then ([], Some (Some (''OpenAI API Error ('' @ show_nat status @ ''): ''
                               @ (if truthy errJsonMessage then the errJsonMessage
                                  else statusText))))
          else (case body of
                  None \<Rightarrow> ([], None)
                | Some reads \<Rightarrow> (read_loop parse_line JSON_parse [] [] reads, None)))"

section \<open>Turn orchestrator (processConversationTurn, src/components/ChatInterface.tsx)\<close>

text \<open>
  What the turn takes from outside, by the number of the call: the value of
  \<open>crypto.randomUUID()\<close>, the value of \<open>Date.now()\<close>, what the generator handed back by
  \<open>sendMessageStream\<close> delivers (its chunks and then, if it throws, the \<open>message\<close> of the
  error), and the outcome of running a tool's source on the arguments of a call: the source
  either returns a value or throws one (an \<open>Error\<close> is an object with a \<open>message\<close>).
  Whatever is raised between the creation of the function and the serialisation of its
  result is handled by the same \<open>catch\<close>, so a source that does not compile and a result
  that \<open>JSON.stringify\<close> rejects count as thrown errors. Streams and runs of tools are
  taken to end. \<open>error_message\<close> is the \<open>message\<close> that the engine gives to a
  \<open>TypeError\<close> it raises; the wording is the engine's.
\<close>

datatype ToolOutcome = Returned js | Threw js

record World =
  randomUUID :: "nat \<Rightarrow> string"
  now :: "nat \<Rightarrow> nat"
  open_stream :: "nat \<Rightarrow> Property AdapterCall \<Rightarrow> StreamChunk list \<times> string option option"
  run_tool :: "nat \<Rightarrow> string \<Rightarrow> js \<Rightarrow> ToolOutcome"
  error_message :: "TypeError \<Rightarrow> string"

text \<open>
  The update \<open>{...currentMap, [id]: {...currentMap[id], ...}}\<close> of the node stored under an
  id. In \<open>processConversationTurn\<close> the id is that of the pending model node, which
  \<open>appendToTree\<close> has stored before.
\<close>

definition patch :: "messageMap \<Rightarrow> string \<Rightarrow> (Message \<Rightarrow> Message) \<Rightarrow> messageMap" where
  "patch m k f = (case m k of None \<Rightarrow> m | Some n \<Rightarrow> m(k \<mapsto> f n))"

text \<open>
  The \<open>for await\<close> loop over the chunks of the stream: the state is the accumulated text,
  the current tool calls and the current mapping.
\<close>

definition consume_chunk ::
  "string \<Rightarrow> string \<times> ToolCall list \<times> messageMap \<Rightarrow> StreamChunk
   \<Rightarrow> string \<times> ToolCall list \<times> messageMap" where
  "consume_chunk modelMsgId state chunk =
     (case state of (accumulatedText, currentToolCalls, currentMap) \<Rightarrow>
        (let accumulatedText' =
               (if truthy (textDelta chunk) then accumulatedText @ the (textDelta chunk)
                else accumulatedText);
             currentToolCalls' =
               (case chunk_toolCalls chunk of None \<Rightarrow> currentToolCalls | Some tcs \<Rightarrow> tcs)
         in (accumulatedText', currentToolCalls',
             patch currentMap modelMsgId
               (\<lambda>n. n\<lparr>content := Some accumulatedText',
                        toolCalls := (if length currentToolCalls' > 0
                                      then Some currentToolCalls' else None)\<rparr>))))"

definition consume_chunks ::
  "string \<Rightarrow> string \<times> ToolCall list \<times> messageMap \<Rightarrow> StreamChunk list
   \<Rightarrow> string \<times> ToolCall list \<times> messageMap" where
  "consume_chunks modelMsgId state chunks = foldl (consume_chunk modelMsgId) state chunks"

text \<open>The \<open>catch\<close> block: the error text replaces the content of the pending node.\<close>

definition errorMessage :: "string option \<Rightarrow> string" where
  "errorMessage message =
     ''Error: '' @ (if truthy message then the message else ''Unknown error occurred'')"

definition fail_turn :: "string \<Rightarrow> string option \<Rightarrow> messageMap \<Rightarrow> messageMap" where
  "fail_turn modelMsgId message currentMap =
     patch currentMap modelMsgId (\<lambda>n. n\<lparr>content := Some (errorMessage message)\<rparr>)"

text \<open>
  The classification of one tool call, and the execution queue: the calls that qualify, each
  with its tool.
\<close>

definition auto_executable :: "AppConfig \<Rightarrow> ToolCall \<Rightarrow> (ToolCall \<times> UserTool) option" where
  "auto_executable config tc =
     (case find (\<lambda>t. fd_name (tool_definition t) = tc_name tc) (tools config) of
        None \<Rightarrow> None
      | Some toolConfig \<Rightarrow>
          if autoExecute toolConfig = Some True \<and> truthy (implementation toolConfig)
          then Some (tc, toolConfig) else None)"

definition executionQueue :: "AppConfig \<Rightarrow> ToolCall list \<Rightarrow> (ToolCall \<times> UserTool) list" where
  "executionQueue config tcs = List.map_filter (auto_executable config) tcs"

text \<open>
  \<open>e.message\<close> in the \<open>catch\<close> inside the loop, for the thrown value \<open>e\<close>: reading a
  property of \<open>null\<close> or \<open>undefined\<close> raises a \<open>TypeError\<close>; an object has the property or
  not; every other value has no such property.
\<close>

fun message_of :: "js \<Rightarrow> TypeError + js" where
  "message_of JUndefined = Inl (ReadProperty JUndefined ''message'')"
| "message_of JNull = Inl (ReadProperty JNull ''message'')"
| "message_of (JObj kvs) = Inr (case map_of kvs ''message'' of None \<Rightarrow> JUndefined | Some v \<Rightarrow> v)"
| "message_of (JBool b) = Inr JUndefined"
| "message_of (JNum negative magnitude) = Inr JUndefined"
| "message_of (JStr s) = Inr JUndefined"
| "message_of (JArr vs) = Inr JUndefined"

text \<open>
  The \<open>for (const item of executionQueue)\<close> loop: the results pushed, in order, and the
  error that ended the loop, if one did. The \<open>catch\<close> inside the loop turns a thrown value
  into the result \<open>{error: e.message}\<close>; an error raised inside that \<open>catch\<close> leaves the
  loop, and the tools after it are not run.
\<close>

fun execute_queue ::
  "World \<Rightarrow> nat \<Rightarrow> (ToolCall \<times> UserTool) list \<Rightarrow> ToolResult list \<times> TypeError option" where
  "execute_queue w k [] = ([], None)"
| "execute_queue w k ((tc, toolConfig) # queue) =
     (case (case run_tool w k (the (implementation toolConfig)) (tc_args tc) of
              Returned output \<Rightarrow> Inr (JSON_stringify output)
            | Threw e \<Rightarrow>
                (case message_of e of
                   Inl err \<Rightarrow> Inl err
                 | Inr message \<Rightarrow> Inr (JSON_stringify (JObj [(''error'', message)])))) of
        Inl err \<Rightarrow> ([], Some err)
      | Inr result \<Rightarrow>
          (case execute_queue w (Suc k) queue of
             (results, failure) \<Rightarrow> (\<lparr>tr_callId = tc_id tc, tr_result = result\<rparr> # results, failure)))"

text \<open>
  How one pass through the body of \<open>processConversationTurn\<close> ends: it is over, with the
  mapping and head last published; or it calls itself on the mapping and head it has just
  published (the third component is the number of the next call to the outside); or an
  error was raised before the \<open>try\<close> block, with nothing published, and the promise is
  rejected.
\<close>

datatype TurnEnd = Idle messageMap string | Continue messageMap string nat | Rejected TypeError

text \<open>The placeholder node of the turn, and the node that carries the results of the tools.\<close>

definition initialModelMsg :: "string \<Rightarrow> nat \<Rightarrow> string \<Rightarrow> Message" where
  "initialModelMsg modelMsgId time startHeadId =
     \<lparr>msg_id = modelMsgId, role = Model, content = Some [], toolCalls = Some [],
      toolResults = None, timestamp = time, parentId = Some startHeadId, childrenIds = []\<rparr>"

definition toolMsg :: "string \<Rightarrow> ToolResult list \<Rightarrow> nat \<Rightarrow> string \<Rightarrow> Message" where
  "toolMsg toolMsgId results time currentHead =
     \<lparr>msg_id = toolMsgId, role = Tool, content = None, toolCalls = None,
      toolResults = Some results, timestamp = time, parentId = Some currentHead,
      childrenIds = []\<rparr>"

text \<open>
  The part of the body after the stream has ended without an error. It is inside the
  \<open>try\<close> block: an error raised here is handled by the \<open>catch\<close> block of the turn, which
  writes the error text into the pending node. The pending node is stored under
  \<open>modelMsgId\<close> when this part is reached; were it not, reading \<open>finalMsg.toolCalls\<close>
  would raise.
\<close>

definition tool_dispatch ::
  "World \<Rightarrow> AppConfig \<Rightarrow> messageMap \<Rightarrow> string \<Rightarrow> nat \<Rightarrow> TurnEnd" where
  "tool_dispatch w config currentMap modelMsgId k =
     (case lookup currentMap modelMsgId of
        None \<Rightarrow>
          Idle (fail_turn modelMsgId
                  (Some (error_message w (ReadProperty JUndefined ''toolCalls''))) currentMap)
            modelMsgId
      | Some (Inherited key) \<Rightarrow> Idle currentMap modelMsgId
      | Some (Stored finalMsg) \<Rightarrow>
          (case toolCalls finalMsg of
             None \<Rightarrow> Idle currentMap modelMsgId
           | Some tcs \<Rightarrow>
               if length tcs > 0
               then (let queue = executionQueue config tcs
                     in if length queue > 0
                        then (case execute_queue w k queue of
                                (results, Some err) \<Rightarrow>
                                  Idle (fail_turn modelMsgId (Some (error_message w err))
                                          currentMap) modelMsgId
                              | (results, None) \<Rightarrow>
                                  (let k' = k + length queue
                                   in if length results > 0
                                      then (let toolMsgId = randomUUID w k'
                                            in case appendToTree (Some modelMsgId)
                                                      (toolMsg toolMsgId results (now w k')
                                                         modelMsgId)
                                                      currentMap of
                                                 Inl err \<Rightarrow>
                                                   Idle (fail_turn modelMsgId
                                                           (Some (error_message w err))
                                                           currentMap) modelMsgId
                                               | Inr currentMap' \<Rightarrow>
                                                   if length results = length tcs
                                                   then Continue currentMap' toolMsgId (Suc k')
                                                   else Idle currentMap' toolMsgId)
                                      else Idle currentMap modelMsgId))
                        else Idle currentMap modelMsgId)
               else Idle currentMap modelMsgId))"

text \<open>
  One pass through the body. \<open>None\<close> means that \<open>getThread\<close> never returns. The
  placeholder node is appended before the \<open>try\<close> block, so an error raised there is not
  handled.
\<close>

definition turn_step ::
  "World \<Rightarrow> AppConfig \<Rightarrow> messageMap \<Rightarrow> string \<Rightarrow> nat \<Rightarrow> TurnEnd option" where
  "turn_step w config startMap startHeadId k =
     (let modelMsgId = randomUUID w k
      in case appendToTree (Some startHeadId)
                (initialModelMsg modelMsgId (now w k) startHeadId) startMap of
           Inl err \<Rightarrow> Some (Rejected err)
         | Inr currentMap \<Rightarrow>
             (case getThread currentMap (Some startHeadId) of
                None \<Rightarrow> None
              | Some historyForApi \<Rightarrow>
                  Some (case sendMessageStream config historyForApi of
                          Inl message \<Rightarrow>
                            Idle (fail_turn modelMsgId (Some message) currentMap) modelMsgId
                        | Inr stream \<Rightarrow>
                            (case open_stream w k stream of
                               (chunks, failure) \<Rightarrow>
                                 (case consume_chunks modelMsgId ([], [], currentMap) chunks of
                                    (accumulatedText, currentToolCalls, streamed) \<Rightarrow>
                                      (case failure of
                                         Some message \<Rightarrow>
                                           Idle (fail_turn modelMsgId message streamed)
                                             modelMsgId
                                       | None \<Rightarrow>
                                           tool_dispatch w config streamed modelMsgId
                                             (Suc k)))))))"

text \<open>
  \<open>processConversationTurn\<close>: the mapping and head published last, or the error with
  which the promise is rejected. \<open>None\<close> means that it never returns: nothing bounds the
  chain of turns that continue on their own. The turn that continues is awaited inside the
  \<open>try\<close> block, so if its promise were rejected, the \<open>catch\<close> block of this turn would
  write the error text into this turn's node.
\<close>

partial_function (option) processConversationTurn ::
  "World \<Rightarrow> AppConfig \<Rightarrow> messageMap \<Rightarrow> string \<Rightarrow> nat
   \<Rightarrow> (TypeError + messageMap \<times> string) option" where
  "processConversationTurn w config startMap startHeadId k =
     (case turn_step w config startMap startHeadId k of
        None \<Rightarrow> None
      | Some (Rejected err) \<Rightarrow> Some (Inl err)
      | Some (Idle currentMap currentHead) \<Rightarrow> Some (Inr (currentMap, currentHead))
      | Some (Continue currentMap currentHead k') \<Rightarrow>
          Option.bind (processConversationTurn w config currentMap currentHead k')
            (\<lambda>r. case r of
                   Inl err \<Rightarrow>
                     Some (Inr (fail_turn (randomUUID w k) (Some (error_message w err))
                                  currentMap, currentHead))
                 | Inr published \<Rightarrow> Some (Inr published)))"

declare processConversationTurn.simps [code]

text \<open>
  A turn has failed with an error when the pass is over without a continuation, the head is the
  pending model node, and the content of that node is the error text.
\<close>

definition turn_failed_with ::
  "World \<Rightarrow> AppConfig \<Rightarrow> messageMap \<Rightarrow> string \<Rightarrow> nat \<Rightarrow> string option \<Rightarrow> bool" where
  "turn_failed_with w config startMap startHeadId k message =
     (\<exists>currentMap n.
        turn_step w config startMap startHeadId k = Some (Idle currentMap (randomUUID w k))
        \<and> processConversationTurn w config startMap startHeadId k
            = Some (Inr (currentMap, randomUUID w k))
        \<and> currentMap (randomUUID w k) = Some n
        \<and> content n = Some (errorMessage message))"

section \<open>Example data for the concrete inputs\<close>

text \<open>Example nodes for the concrete inputs below.\<close>

abbreviation user_node :: "string \<Rightarrow> string option \<Rightarrow> string list \<Rightarrow> Message" where
  "user_node i p cs \<equiv> \<lparr>msg_id = i, role = User, content = Some ''hi'', toolCalls = None,
     toolResults = None, timestamp = 0, parentId = p, childrenIds = cs\<rparr>"

text \<open>
  A tree for the concrete inputs: the root \<open>a\<close> has the children \<open>b1\<close> and \<open>b2\<close>, and
  \<open>b2\<close> has the children \<open>c1\<close> and \<open>c2\<close>.
\<close>

abbreviation branch_tree :: messageMap where
  "branch_tree \<equiv>
     [''a'' \<mapsto> user_node ''a'' None [''b1'', ''b2''],
      ''b1'' \<mapsto> user_node ''b1'' (Some ''a'') [],
      ''b2'' \<mapsto> user_node ''b2'' (Some ''a'') [''c1'', ''c2''],
      ''c1'' \<mapsto> user_node ''c1'' (Some ''b2'') [],
      ''c2'' \<mapsto> user_node ''c2'' (Some ''b2'') []]"

text \<open>
  A tree with ids that are not keys and name properties of \<open>Object.prototype\<close>: the only
  child of \<open>b2\<close> and the parent of \<open>x\<close> are named \<open>toString\<close>. The node \<open>y\<close> names
  \<open>a\<close> as its parent and is not among the children of \<open>a\<close>.
\<close>

abbreviation builtin_tree :: messageMap where
  "builtin_tree \<equiv>
     [''a'' \<mapsto> user_node ''a'' None [''b1'', ''b2''],
      ''b1'' \<mapsto> user_node ''b1'' (Some ''a'') [],
      ''b2'' \<mapsto> user_node ''b2'' (Some ''a'') [''toString''],
      ''x'' \<mapsto> user_node ''x'' (Some ''toString'') [],
      ''y'' \<mapsto> user_node ''y'' (Some ''a'') []]"

text \<open>Example configurations: one model, selected, with the given provider and API key.\<close>

abbreviation one_model_config :: "string \<Rightarrow> string \<Rightarrow> UserTool list \<Rightarrow> AppConfig" where
  "one_model_config p k ts \<equiv>
     \<lparr>activeModelId = ''m1'',
      models = [\<lparr>model_id = ''m1'', model_name = ''Model'', provider = p,
                 modelId = ''model-1'', apiKey = k, baseUrl = None\<rparr>],
      systemPrompt = ''You are a helpful AI assistant.'', memories = [], tools = ts\<rparr>"

text \<open>
  A parser for the concrete inputs: it accepts one payload, the JSON text of a delta with the
  content \<open>hi\<close>, and rejects every other text.
\<close>

abbreviation hi_json :: string where
  "hi_json \<equiv> ''{'' @ [CHR 0x22] @ ''choices'' @ [CHR 0x22] @ '':[{'' @ [CHR 0x22] @ ''delta''
     @ [CHR 0x22] @ '':{'' @ [CHR 0x22] @ ''content'' @ [CHR 0x22] @ '':'' @ [CHR 0x22] @ ''hi''
     @ [CHR 0x22] @ ''}}]}''"

definition hi_parser :: "string \<Rightarrow> Payload option" where
  "hi_parser s =
     (if s = hi_json
      then Some \<lparr>choices = Some [Some \<lparr>delta_content = Some ''hi'', delta_tool_calls = None\<rparr>]\<rparr>
      else None)"

text \<open>A \<open>JSON.parse\<close> that rejects every text, for inputs on which it is never called.\<close>

definition never_parses :: "string \<Rightarrow> js option" where
  "never_parses s = None"

abbreviation hi_chunk :: StreamChunk where
  "hi_chunk \<equiv> \<lparr>textDelta = Some ''hi'', chunk_toolCalls = None\<rparr>"

text \<open>Example data: a pending model node, and two calls of a weather tool.\<close>

abbreviation pending_node :: "string \<Rightarrow> string \<Rightarrow> Message" where
  "pending_node i p \<equiv> \<lparr>msg_id = i, role = Model, content = Some [], toolCalls = Some [],
     toolResults = None, timestamp = 0, parentId = Some p, childrenIds = []\<rparr>"

abbreviation weather_call :: "string \<Rightarrow> string \<Rightarrow> ToolCall" where
  "weather_call i city \<equiv>
     \<lparr>tc_id = i, tc_name = ''get_weather'', tc_args = JObj [(''city'', JStr city)]\<rparr>"

text \<open>Example tools: a weather tool with executable source, and a mail tool.\<close>

abbreviation weather_tool :: "bool \<Rightarrow> bool option \<Rightarrow> UserTool" where
  "weather_tool on auto \<equiv>
     \<lparr>tool_id = ''tool-1'',
      tool_definition = \<lparr>fd_name = ''get_weather'', fd_description = Some ''Get current weather'',
                         fd_parameters = JObj []\<rparr>,
      active = on, implementation = Some ''return 1;'', autoExecute = auto\<rparr>"



text \<open>
  A weather tool whose source returns the string \<open>sunny\<close>, a tool whose source throws
  \<open>null\<close>, and a call of the latter.
\<close>

abbreviation sunny_source :: string where
  "sunny_source \<equiv> ''return 'sunny';''"

abbreviation sunny_tool :: UserTool where
  "sunny_tool \<equiv>
     \<lparr>tool_id = ''tool-1'',
      tool_definition = \<lparr>fd_name = ''get_weather'', fd_description = Some ''Get current weather'',
                         fd_parameters = JObj []\<rparr>,
      active = True, implementation = Some sunny_source, autoExecute = Some True\<rparr>"

abbreviation crash_tool :: UserTool where
  "crash_tool \<equiv>
     \<lparr>tool_id = ''tool-3'',
      tool_definition = \<lparr>fd_name = ''crash'', fd_description = None, fd_parameters = JObj []\<rparr>,
      active = True, implementation = Some ''throw null;'', autoExecute = Some True\<rparr>"

abbreviation crash_call :: "string \<Rightarrow> ToolCall" where
  "crash_call i \<equiv> \<lparr>tc_id = i, tc_name = ''crash'', tc_args = JObj []\<rparr>"

text \<open>
  How the sources of the example tools run, and the wording of a \<open>TypeError\<close> for the concrete
  inputs.
\<close>

definition run_example :: "nat \<Rightarrow> string \<Rightarrow> js \<Rightarrow> ToolOutcome" where
  "run_example k source args =
     (if source = sunny_source then Returned (JStr ''sunny'')
      else if source = ''throw null;'' then Threw JNull
      else if source = ''return 1;'' then Returned (JNum False 1)
      else Threw (JObj [(''message'', JStr ''Unexpected token'')]))"

fun v8_message :: "TypeError \<Rightarrow> string" where
  "v8_message (ReadProperty v name) =
     ''Cannot read properties of '' @ (if v = JNull then ''null'' else ''undefined'')
     @ '' (reading '' @ [CHR 0x27] @ name @ [CHR 0x27] @ '')''"
| "v8_message (Spread v) =
     ''undefined is not iterable (cannot read property Symbol(Symbol.iterator))''"

abbreviation null_message :: string where
  "null_message \<equiv> ''Cannot read properties of null (reading 'message')''"


text \<open>
  The same world with a first stream that carries a call of the tool that throws \<open>null\<close>
  and then a call of the weather tool.
\<close>

abbreviation crash_world :: World where
  "crash_world \<equiv>
     \<lparr>randomUUID = (\<lambda>k. if k = 0 then ''m1'' else if k = 2 then ''t1'' else ''m2''),
      now = (\<lambda>k. k),
      open_stream = (\<lambda>k stream.
        ([\<lparr>textDelta = None,
           chunk_toolCalls = Some [crash_call ''c1'', weather_call ''c2'' ''NYC'']\<rparr>], None)),
      run_tool = run_example,
      error_message = v8_message\<rparr>"

abbreviation crash_config :: AppConfig where
  "crash_config \<equiv> one_model_config ''gemini'' ''key'' [crash_tool, sunny_tool]"






text \<open>The mapping after the turn in which the tool threw \<open>null\<close>.\<close>

abbreviation after_crash :: messageMap where
  "after_crash \<equiv>
     [''u1'' \<mapsto> user_node ''u1'' None [''m1''],
      ''m1'' \<mapsto> \<lparr>msg_id = ''m1'', role = Model, content = Some (''Error: '' @ null_message),
                 toolCalls = Some [crash_call ''c1'', weather_call ''c2'' ''NYC''],
                 toolResults = None, timestamp = 0, parentId = Some ''u1'',
                 childrenIds = []\<rparr>]"

text \<open>
  Concrete failures: a configuration whose active model does not exist, a configuration
  whose active model has no API key, and a world in which the stream delivers one chunk and
  then fails.
\<close>

abbreviation no_model_config :: AppConfig where
  "no_model_config \<equiv>
     \<lparr>activeModelId = ''gone'', models = [],
      systemPrompt = ''You are a helpful AI assistant.'', memories = [], tools = []\<rparr>"

abbreviation failing_world :: World where
  "failing_world \<equiv>
     \<lparr>randomUUID = (\<lambda>k. ''m1''), now = (\<lambda>k. k),
      open_stream = (\<lambda>k stream.
        ([\<lparr>textDelta = Some ''Hel'', chunk_toolCalls = None\<rparr>], Some (Some ''Failed to fetch''))),
      run_tool = run_example,
      error_message = v8_message\<rparr>"

section \<open>Properties of the message tree\<close>

subsection \<open>Reading a key\<close>

lemma lookup_Stored: "lookup m k = Some (Stored n) \<longleftrightarrow> m k = Some n"
  by (auto simp: lookup_def split: option.splits)

lemma lookup_stored: "m k = Some n \<Longrightarrow> lookup m k = Some (Stored n)"
  by (simp add: lookup_def)

lemma lookup_None: "lookup m k = None \<longleftrightarrow> m k = None \<and> k \<notin> set object_prototype_keys"
  by (auto simp: lookup_def split: option.splits)

lemma lookup_Inherited:
  "lookup m k = Some (Inherited j) \<longleftrightarrow> m k = None \<and> k \<in> set object_prototype_keys \<and> j = k"
  by (auto simp: lookup_def split: option.splits)

lemma lookup_cases:
  obtains (missing) "m k = None" "k \<notin> set object_prototype_keys" "lookup m k = None"
  | (builtin) "m k = None" "k \<in> set object_prototype_keys" "lookup m k = Some (Inherited k)"
  | (stored) n where "m k = Some n" "lookup m k = Some (Stored n)"
  by (cases "m k") (auto simp: lookup_def)

lemma lookup_empty_constructor: "lookup Map.empty ''constructor'' = Some (Inherited ''constructor'')"
  by (simp add: lookup_def object_prototype_keys_def)

lemma ghost_not_inherited: "''ghost'' \<notin> set object_prototype_keys"
  by (simp add: object_prototype_keys_def)

lemma lookup_upd: "lookup (m(i \<mapsto> n)) p = (if p = i then Some (Stored n) else lookup m p)"
  by (simp add: lookup_def)

subsection \<open>Appending\<close>

lemma appendToTree_unlinked:
  "\<not> truthy p \<or> lookup (m(msg_id msg \<mapsto> msg)) (the p) = None
   \<Longrightarrow> appendToTree p msg m = Inr (m(msg_id msg \<mapsto> msg))"
  unfolding appendToTree_def Let_def by (cases "truthy p") simp_all

lemma appendToTree_linked:
  "truthy p \<Longrightarrow> (m(msg_id msg \<mapsto> msg)) (the p) = Some parent
   \<Longrightarrow> appendToTree p msg m =
       Inr ((m(msg_id msg \<mapsto> msg))(the p \<mapsto>
              parent\<lparr>childrenIds := childrenIds parent @ [msg_id msg]\<rparr>))"
  unfolding appendToTree_def Let_def by (simp add: lookup_stored)

lemma appendToTree_raises:
  "truthy p \<Longrightarrow> lookup (m(msg_id msg \<mapsto> msg)) (the p) = Some (Inherited k)
   \<Longrightarrow> appendToTree p msg m = Inl (Spread JUndefined)"
  unfolding appendToTree_def Let_def by simp

lemma appendToTree_cases:
  assumes "appendToTree p msg m = Inr m'"
  obtains (unlinked) "\<not> truthy p \<or> (m(msg_id msg \<mapsto> msg)) (the p) = None"
      "m' = m(msg_id msg \<mapsto> msg)"
  | (linked) parent where "truthy p" "(m(msg_id msg \<mapsto> msg)) (the p) = Some parent"
      "m' = (m(msg_id msg \<mapsto> msg))(the p \<mapsto>
               parent\<lparr>childrenIds := childrenIds parent @ [msg_id msg]\<rparr>)"
proof (cases "truthy p")
  case False
  with assms have "m' = m(msg_id msg \<mapsto> msg)" by (simp add: appendToTree_def)
  with False show ?thesis by (intro unlinked) simp_all
next
  case True
  show ?thesis
  proof (cases "m(msg_id msg \<mapsto> msg)" "the p" rule: lookup_cases)
    case missing
    with assms True have "m' = m(msg_id msg \<mapsto> msg)"
      by (simp add: appendToTree_unlinked)
    with missing show ?thesis by (intro unlinked) simp_all
  next
    case builtin
    with assms True show ?thesis by (simp add: appendToTree_raises)
  next
    case (stored parent)
    with assms True
    have "m' = (m(msg_id msg \<mapsto> msg))(the p \<mapsto>
               parent\<lparr>childrenIds := childrenIds parent @ [msg_id msg]\<rparr>)"
      by (simp add: appendToTree_linked)
    with True stored show ?thesis by (intro linked)
  qed
qed

lemma appendToTree_known:
  assumes "case p of None \<Rightarrow> True | Some q \<Rightarrow> m q \<noteq> None"
  shows "\<exists>m'. appendToTree p msg m = Inr m'"
proof (cases "truthy p")
  case False
  then show ?thesis by (simp add: appendToTree_unlinked)
next
  case True
  then obtain q where q: "p = Some q" by (cases p) (simp_all add: truthy_def)
  with assms have "(m(msg_id msg \<mapsto> msg)) q \<noteq> None" by auto
  then obtain parent where "(m(msg_id msg \<mapsto> msg)) q = Some parent" by blast
  with True q show ?thesis by (simp add: appendToTree_linked)
qed

lemma keys_are_ids_update:
  "keys_are_ids m \<Longrightarrow> msg_id n = k \<Longrightarrow> keys_are_ids (m(k \<mapsto> n))"
  by (simp add: keys_are_ids_def)

lemma appendToTree_keys_are_ids:
  assumes "keys_are_ids m" and "appendToTree p msg m = Inr m'"
  shows "keys_are_ids m'"
  using assms(2)
proof (cases rule: appendToTree_cases)
  case unlinked
  from assms(1) have "keys_are_ids (m(msg_id msg \<mapsto> msg))"
    by (rule keys_are_ids_update) simp
  with unlinked(2) show ?thesis by simp
next
  case (linked parent)
  from assms(1) have k1: "keys_are_ids (m(msg_id msg \<mapsto> msg))"
    by (rule keys_are_ids_update) simp
  from k1 linked(2) have "msg_id parent = the p" unfolding keys_are_ids_def by blast
  then have "msg_id (parent\<lparr>childrenIds := childrenIds parent @ [msg_id msg]\<rparr>) = the p"
    by simp
  with k1 have "keys_are_ids ((m(msg_id msg \<mapsto> msg))(the p \<mapsto>
               parent\<lparr>childrenIds := childrenIds parent @ [msg_id msg]\<rparr>))"
    by (rule keys_are_ids_update)
  with linked(3) show ?thesis by simp
qed

lemma children_linked_insert:
  assumes "children_linked m" "m i = None" "childrenIds msg = []"
  shows "children_linked (m(i \<mapsto> msg))"
  unfolding children_linked_def
proof (intro allI impI)
  fix k n c
  assume kn: "(m(i \<mapsto> msg)) k = Some n" and c: "c \<in> set (childrenIds n)"
  from kn c assms(3) have "k \<noteq> i" by auto
  with kn have "m k = Some n" by simp
  with assms(1) c obtain cn where cn: "m c = Some cn" "parentId cn = Some (msg_id n)"
    unfolding children_linked_def by blast
  from cn(1) assms(2) have "c \<noteq> i" by auto
  with cn show "\<exists>cn. (m(i \<mapsto> msg)) c = Some cn \<and> parentId cn = Some (msg_id n)" by simp
qed

lemma children_linked_add_child:
  assumes cl: "children_linked m" and ki: "keys_are_ids m"
    and q: "m q = Some parent" and i: "m i = Some x" and px: "parentId x = Some q"
  shows "children_linked (m(q \<mapsto> parent\<lparr>childrenIds := childrenIds parent @ [i]\<rparr>))"
    (is "children_linked ?m'")
  unfolding children_linked_def
proof (intro allI impI)
  fix k n c
  assume kn: "?m' k = Some n" and c: "c \<in> set (childrenIds n)"
  have idq: "msg_id parent = q" using ki q by (simp add: keys_are_ids_def)
  have same: "\<And>j y. m j = Some y \<Longrightarrow> \<exists>y'. ?m' j = Some y' \<and> parentId y' = parentId y"
    using q by auto
  have "\<exists>cn. m c = Some cn \<and> parentId cn = Some (msg_id n)"
  proof (cases "k = q")
    case True
    with kn have n: "n = parent\<lparr>childrenIds := childrenIds parent @ [i]\<rparr>" by simp
    with c have "c = i \<or> c \<in> set (childrenIds parent)" by auto
    then show ?thesis
    proof
      assume "c = i"
      with i px idq n show ?thesis by simp
    next
      assume "c \<in> set (childrenIds parent)"
      with cl q obtain cn where "m c = Some cn" "parentId cn = Some (msg_id parent)"
        unfolding children_linked_def by blast
      with n show ?thesis by simp
    qed
  next
    case False
    with kn have "m k = Some n" by simp
    with cl c show ?thesis unfolding children_linked_def by blast
  qed
  then obtain cn where cn: "m c = Some cn" "parentId cn = Some (msg_id n)" by blast
  from same [OF cn(1)] cn(2)
  show "\<exists>cn. ?m' c = Some cn \<and> parentId cn = Some (msg_id n)" by auto
qed

lemma appendToTree_children_linked:
  assumes "keys_are_ids m" "children_linked m" "m (msg_id msg) = None"
    and "parentId msg = p" "childrenIds msg = []"
    and ok: "appendToTree p msg m = Inr m'"
  shows "children_linked m'"
proof -
  let ?m1 = "m(msg_id msg \<mapsto> msg)"
  have c1: "children_linked ?m1"
    using assms(2,3,5) by (rule children_linked_insert)
  have k1: "keys_are_ids ?m1"
    using assms(1) by (simp add: keys_are_ids_def)
  from ok show ?thesis
  proof (cases rule: appendToTree_cases)
    case unlinked
    with c1 show ?thesis by simp
  next
    case (linked parent)
    then obtain q where q: "p = Some q" by (cases p) (simp_all add: truthy_def)
    from linked(2) q have par: "?m1 q = Some parent" by simp
    have "children_linked (?m1(q \<mapsto> parent\<lparr>childrenIds := childrenIds parent @ [msg_id msg]\<rparr>))"
    proof (rule children_linked_add_child [OF c1 k1 par])
      show "?m1 (msg_id msg) = Some msg" by simp
      show "parentId msg = Some q" using assms(4) q by simp
    qed
    with linked(3) q show ?thesis by simp
  qed
qed

lemma parents_present_insert:
  assumes "parents_present m" "case parentId msg of None \<Rightarrow> True | Some q \<Rightarrow> m q \<noteq> None"
  shows "parents_present (m(i \<mapsto> msg))"
  unfolding parents_present_def
proof (intro allI impI)
  fix k n p
  assume kn: "(m(i \<mapsto> msg)) k = Some n" and p: "parentId n = Some p"
  have "m p \<noteq> None"
  proof (cases "k = i")
    case True
    with kn p assms(2) show ?thesis by auto
  next
    case False
    with kn p assms(1) show ?thesis unfolding parents_present_def by auto
  qed
  then show "(m(i \<mapsto> msg)) p \<noteq> None" by simp
qed

lemma parents_present_update:
  assumes "parents_present m" "m q = Some parent" "parentId parent' = parentId parent"
  shows "parents_present (m(q \<mapsto> parent'))"
  unfolding parents_present_def
proof (intro allI impI)
  fix k n p
  assume kn: "(m(q \<mapsto> parent')) k = Some n" and p: "parentId n = Some p"
  have "m p \<noteq> None"
  proof (cases "k = q")
    case True
    with kn p assms show ?thesis unfolding parents_present_def by auto
  next
    case False
    with kn p assms(1) show ?thesis unfolding parents_present_def by auto
  qed
  then show "(m(q \<mapsto> parent')) p \<noteq> None" by simp
qed

lemma appendToTree_parents_present:
  assumes "parents_present m" "parentId msg = p" "case p of None \<Rightarrow> True | Some q \<Rightarrow> m q \<noteq> None"
    and ok: "appendToTree p msg m = Inr m'"
  shows "parents_present m'"
proof -
  let ?m1 = "m(msg_id msg \<mapsto> msg)"
  have p1: "parents_present ?m1"
    using assms(1-3) by (intro parents_present_insert) simp_all
  from ok show ?thesis
  proof (cases rule: appendToTree_cases)
    case unlinked
    with p1 show ?thesis by simp
  next
    case (linked parent)
    have "parents_present (?m1(the p \<mapsto> parent\<lparr>childrenIds := childrenIds parent @ [msg_id msg]\<rparr>))"
      using p1 linked(2) by (rule parents_present_update) simp
    with linked(3) show ?thesis by simp
  qed
qed

lemma appends_keys_children:
  "keys_are_ids m \<Longrightarrow> children_linked m \<Longrightarrow> caller_discipline m ops
   \<Longrightarrow> appends m ops = Inr m' \<Longrightarrow> keys_are_ids m' \<and> children_linked m'"
proof (induction ops arbitrary: m)
  case Nil
  then show ?case by simp
next
  case (Cons op ops)
  obtain p msg where op: "op = (p, msg)" by (cases op)
  from Cons.prems(4) op obtain m1 where m1: "appendToTree p msg m = Inr m1"
    and rest: "appends m1 ops = Inr m'"
    by (cases "appendToTree p msg m") simp_all
  from Cons.prems(3) op m1 have fresh: "m (msg_id msg) = None" "parentId msg = p"
      "childrenIds msg = []"
    and disc: "caller_discipline m1 ops" by simp_all
  have k: "keys_are_ids m1"
    using Cons.prems(1) m1 by (rule appendToTree_keys_are_ids)
  have c: "children_linked m1"
    using Cons.prems(1,2) fresh m1 by (rule appendToTree_children_linked)
  from k c disc rest show ?case by (rule Cons.IH)
qed

lemma appends_parents_present:
  "parents_present m \<Longrightarrow> caller_discipline m ops \<Longrightarrow> parents_known m ops
   \<Longrightarrow> appends m ops = Inr m' \<Longrightarrow> parents_present m'"
proof (induction ops arbitrary: m)
  case Nil
  then show ?case by simp
next
  case (Cons op ops)
  obtain p msg where op: "op = (p, msg)" by (cases op)
  from Cons.prems(4) op obtain m1 where m1: "appendToTree p msg m = Inr m1"
    and rest: "appends m1 ops = Inr m'"
    by (cases "appendToTree p msg m") simp_all
  from Cons.prems(2,3) op m1 have a: "parentId msg = p"
      "case p of None \<Rightarrow> True | Some q \<Rightarrow> m q \<noteq> None"
    and disc: "caller_discipline m1 ops" "parents_known m1 ops"
    by simp_all
  have "parents_present m1"
    using Cons.prems(1) a m1 by (rule appendToTree_parents_present)
  from this disc rest show ?case by (rule Cons.IH)
qed

lemma appends_known_returns:
  "parents_known m ops \<Longrightarrow> \<exists>m'. appends m ops = Inr m'"
proof (induction ops arbitrary: m)
  case Nil
  show ?case by simp
next
  case (Cons op ops)
  obtain p msg where op: "op = (p, msg)" by (cases op)
  from Cons.prems op have known: "case p of None \<Rightarrow> True | Some q \<Rightarrow> m q \<noteq> None"
    by simp
  then obtain m1 where m1: "appendToTree p msg m = Inr m1"
    using appendToTree_known by blast
  with Cons.prems op have "parents_known m1 ops" by simp
  then obtain m' where "appends m1 ops = Inr m'" using Cons.IH by blast
  with m1 op show ?case by simp
qed






subsection \<open>The thread projector\<close>

lemma linked_snoc2:
  "linked m (pre @ [y, x]) =
     (linked m (pre @ [y]) \<and> truthy (prop_parentId x) \<and> lookup m (the (prop_parentId x)) = Some y)"
  by (induction m pre rule: linked.induct) auto

lemma getThread_loop_root:
  "is_root m x \<Longrightarrow> getThread_loop m (prop_parentId x) acc = Some acc"
  by (subst getThread_loop.simps) (auto simp: is_root_def)

lemma getThread_loop_step:
  "h \<noteq> [] \<Longrightarrow> lookup m h = Some x
   \<Longrightarrow> getThread_loop m (Some h) acc = getThread_loop m (prop_parentId x) (x # acc)"
  by (subst getThread_loop.simps) (simp add: truthy_def)

lemma getThread_loop_complete:
  "thread_of m h t \<Longrightarrow> h \<noteq> [] \<Longrightarrow> getThread_loop m (Some h) acc = Some (t @ acc)"
proof (induction t arbitrary: h acc rule: rev_induct)
  case Nil
  then show ?case by (simp add: thread_of_def)
next
  case (snoc x pre)
  from snoc.prems have hx: "lookup m h = Some x" by (simp add: thread_of_def)
  have step: "getThread_loop m (Some h) acc = getThread_loop m (prop_parentId x) (x # acc)"
    using snoc.prems(2) hx by (rule getThread_loop_step)
  show ?case
  proof (cases pre rule: rev_cases)
    case Nil
    with snoc.prems have "is_root m x" by (simp add: thread_of_def)
    then show ?thesis using step Nil by (simp add: getThread_loop_root)
  next
    case (snoc pre' y)
    then have ne: "pre \<noteq> []" by simp
    from snoc.prems(1) have "is_root m (hd (pre @ [x]))" by (simp add: thread_of_def)
    with ne have rt: "is_root m (hd pre)" by simp
    from snoc.prems(1) snoc have lk: "linked m (pre' @ [y, x])"
      by (simp add: thread_of_def)
    from lk have l': "linked m (pre' @ [y])" and tp: "truthy (prop_parentId x)"
      and py: "lookup m (the (prop_parentId x)) = Some y"
      by (simp_all add: linked_snoc2)
    from tp obtain q where q: "prop_parentId x = Some q" "q \<noteq> []"
      by (cases "prop_parentId x") (simp_all add: truthy_def)
    have "thread_of m q pre"
      using l' rt py q snoc ne by (simp add: thread_of_def)
    from snoc.IH [OF this q(2)] have "getThread_loop m (Some q) (x # acc) = Some (pre @ x # acc)" .
    with step q show ?thesis by simp
  qed
qed

lemma getThread_loop_sound:
  assumes "getThread_loop m0 cur0 acc0 = Some t0"
  shows "\<exists>pre. t0 = pre @ acc0 \<and>
         (if truthy cur0 \<and> lookup m0 (the cur0) \<noteq> None then thread_of m0 (the cur0) pre
          else pre = [])"
proof (rule getThread_loop.raw_induct
    [where P = "\<lambda>m cur acc t. \<exists>pre. t = pre @ acc \<and>
         (if truthy cur \<and> lookup m (the cur) \<noteq> None then thread_of m (the cur) pre else pre = [])",
     OF _ assms])
  fix loop :: "messageMap \<Rightarrow> string option \<Rightarrow> Property list \<Rightarrow> Property list option"
    and m cur acc t
  assume ih: "\<And>m cur acc t. loop m cur acc = Some t \<Longrightarrow>
      \<exists>pre. t = pre @ acc \<and>
         (if truthy cur \<and> lookup m (the cur) \<noteq> None then thread_of m (the cur) pre else pre = [])"
    and body: "(if truthy cur
      then case lookup m (the cur) of None \<Rightarrow> Some acc
           | Some msg \<Rightarrow> loop m (prop_parentId msg) (msg # acc)
      else Some acc) = Some t"
  show "\<exists>pre. t = pre @ acc \<and>
         (if truthy cur \<and> lookup m (the cur) \<noteq> None then thread_of m (the cur) pre else pre = [])"
  proof (cases "truthy cur \<and> lookup m (the cur) \<noteq> None")
    case False
    with body have "t = [] @ acc" by (auto split: if_splits option.splits)
    moreover from False
    have "if truthy cur \<and> lookup m (the cur) \<noteq> None then thread_of m (the cur) [] else [] = []"
      by auto
    ultimately show ?thesis by blast
  next
    case True
    then obtain x where x: "lookup m (the cur) = Some x" by blast
    with True body have rec: "loop m (prop_parentId x) (x # acc) = Some t" by simp
    from ih [OF rec] obtain pre where pre: "t = pre @ x # acc"
      and alt: "if truthy (prop_parentId x) \<and> lookup m (the (prop_parentId x)) \<noteq> None
                then thread_of m (the (prop_parentId x)) pre else pre = []"
      by blast
    have "thread_of m (the cur) (pre @ [x])"
    proof (cases "truthy (prop_parentId x) \<and> lookup m (the (prop_parentId x)) \<noteq> None")
      case False
      with alt have "pre = []" by simp
      with False x show ?thesis by (auto simp: thread_of_def is_root_def)
    next
      case True
      with alt have tp: "thread_of m (the (prop_parentId x)) pre" by simp
      then obtain pre' y where p: "pre = pre' @ [y]"
        by (cases pre rule: rev_cases) (simp_all add: thread_of_def)
      with tp have py: "lookup m (the (prop_parentId x)) = Some y" by (simp add: thread_of_def)
      have lk: "linked m (pre' @ [y, x])"
        using tp p True py by (simp add: thread_of_def linked_snoc2)
      have rt: "is_root m (hd (pre @ [x]))"
        using tp p by (cases pre') (simp_all add: thread_of_def)
      show ?thesis using lk rt x p by (simp add: thread_of_def)
    qed
    with pre True show ?thesis by auto
  qed
qed

lemma getThread_loop_iff:
  assumes "h \<noteq> []" "lookup m h \<noteq> None"
  shows "getThread_loop m (Some h) [] = Some t \<longleftrightarrow> thread_of m h t"
proof
  assume "getThread_loop m (Some h) [] = Some t"
  from getThread_loop_sound [OF this] assms show "thread_of m h t"
    by (simp add: truthy_def)
next
  assume "thread_of m h t"
  from getThread_loop_complete [OF this assms(1), of "[]"]
  show "getThread_loop m (Some h) [] = Some t" by simp
qed

subsection \<open>The walk to the root ends on every tree built by appending\<close>

lemma linked_Stored_step:
  "linked m (map Stored (x # y # zs)) =
     (truthy (parentId y) \<and> m (the (parentId y)) = Some x \<and> linked m (map Stored (y # zs)))"
  by (simp add: lookup_Stored)

lemma linked_stored: "linked m (map Stored t) \<Longrightarrow> x \<in> set (butlast t) \<Longrightarrow> \<exists>k. m k = Some x"
proof (induction t rule: induct_list012)
  case 1
  then show ?case by simp
next
  case (2 y)
  then show ?case by simp
next
  case (3 a b zs)
  from 3(3) have st: "m (the (parentId b)) = Some a" and rest: "linked m (map Stored (b # zs))"
    by (simp_all only: linked_Stored_step)
  from 3(4) have "x = a \<or> x \<in> set (butlast (b # zs))" by simp
  then show ?case
  proof
    assume "x = a"
    with st show ?thesis by blast
  next
    assume "x \<in> set (butlast (b # zs))"
    with rest show ?thesis by (rule 3(2))
  qed
qed

lemma thread_of_stored:
  assumes t: "thread_of m h (map Stored t)" and x: "x \<in> set t"
  shows "\<exists>k. m k = Some x"
proof -
  from t have ne: "t \<noteq> []" by (simp add: thread_of_def)
  from x have "x \<in> set (butlast t) \<or> x = last t"
    by (induction t) (auto split: if_splits)
  then show ?thesis
  proof
    assume "x \<in> set (butlast t)"
    moreover from t have "linked m (map Stored t)" by (simp add: thread_of_def)
    ultimately show ?thesis by (rule linked_stored [rotated])
  next
    assume "x = last t"
    moreover from t ne have "lookup m h = Some (Stored (last t))"
      by (simp add: thread_of_def last_map)
    ultimately show ?thesis by (auto simp: lookup_Stored)
  qed
qed

lemma linked_map:
  assumes ext: "\<And>k x. m k = Some x \<Longrightarrow> m' k = Some (u x)"
    and par: "\<And>x. parentId (u x) = parentId x"
  shows "linked m (map Stored t) \<Longrightarrow> linked m' (map Stored (map u t))"
proof (induction t rule: induct_list012)
  case 1
  show ?case by simp
next
  case (2 x)
  show ?case by simp
next
  case (3 x y zs)
  from 3(3) have tp: "truthy (parentId y)" and st: "m (the (parentId y)) = Some x"
    and rest: "linked m (map Stored (y # zs))"
    by (simp_all only: linked_Stored_step)
  from st have "m' (the (parentId y)) = Some (u x)" by (rule ext)
  moreover from rest have "linked m' (map Stored (map u (y # zs)))" by (rule 3(2))
  ultimately show ?case using tp by (simp add: par lookup_Stored)
qed

lemma thread_of_map:
  assumes ext: "\<And>k x. m k = Some x \<Longrightarrow> m' k = Some (u x)"
    and par: "\<And>x. parentId (u x) = parentId x"
    and pp: "parents_present m"
    and t: "thread_of m h (map Stored t)"
  shows "thread_of m' h (map Stored (map u t))"
proof -
  from t have ne: "t \<noteq> []" and l: "linked m (map Stored t)"
    by (simp_all add: thread_of_def)
  from t have "lookup m h = Some (last (map Stored t))" by (simp add: thread_of_def)
  with ne have "lookup m h = Some (Stored (last t))" by (simp add: last_map)
  then have h: "m h = Some (last t)" by (simp only: lookup_Stored)
  from t ne have r: "is_root m (Stored (hd t))" by (simp add: thread_of_def hd_map)
  from ne have "hd t \<in> set t" by simp
  with t obtain k where k: "m k = Some (hd t)" by (blast dest: thread_of_stored)
  have nt: "\<not> truthy (parentId (hd t))"
  proof
    assume tr: "truthy (parentId (hd t))"
    then obtain p where p: "parentId (hd t) = Some p"
      by (cases "parentId (hd t)") (simp_all add: truthy_def)
    with pp k have "m p \<noteq> None" unfolding parents_present_def by blast
    then have "lookup m p \<noteq> None" by (auto simp: lookup_def)
    with r tr p show False by (simp add: is_root_def)
  qed
  have r': "is_root m' (hd (map Stored (map u t)))"
    using ne nt by (simp add: is_root_def hd_map par)
  from h have "m' h = Some (u (last t))" by (rule ext)
  then have h': "lookup m' h = Some (last (map Stored (map u t)))"
    using ne by (simp add: last_map lookup_stored)
  have l': "linked m' (map Stored (map u t))"
    by (rule linked_map [where m = m and m' = m' and u = u, OF ext par l])
  from ne r' h' l' show ?thesis by (simp add: thread_of_def)
qed

lemma appendToTree_all_threaded:
  assumes ki: "keys_are_ids m" and pp: "parents_present m" and at: "all_threaded m"
    and fresh: "m (msg_id msg) = None" and par: "parentId msg = p"
    and known: "case p of None \<Rightarrow> True | Some q \<Rightarrow> m q \<noteq> None"
    and ok: "appendToTree p msg m = Inr m'"
  shows "all_threaded m'"
proof (cases "truthy p")
  case False
  let ?m' = "m(msg_id msg \<mapsto> msg)"
  from False ok have eq: "m' = ?m'" by (simp add: appendToTree_unlinked)
  have ext: "\<And>k x. m k = Some x \<Longrightarrow> ?m' k = Some ((\<lambda>x. x) x)" using fresh by auto
  show ?thesis
    unfolding eq all_threaded_def
  proof (intro allI impI)
    fix h n
    assume hn: "?m' h = Some n"
    show "\<exists>t. thread_of ?m' h (map Stored t)"
    proof (cases "h = msg_id msg")
      case True
      with False par have "thread_of ?m' h (map Stored [msg])"
        by (simp add: thread_of_def is_root_def lookup_stored)
      then show ?thesis ..
    next
      case neq: False
      with hn have "m h = Some n" by simp
      with at obtain t where t: "thread_of m h (map Stored t)"
        unfolding all_threaded_def by blast
      have "thread_of ?m' h (map Stored (map (\<lambda>x. x) t))"
        by (rule thread_of_map [where m = m and u = "\<lambda>x. x", OF ext refl pp t])
      then show ?thesis ..
    qed
  qed
next
  case True
  then obtain q where q: "p = Some q" "q \<noteq> []" by (cases p) (simp_all add: truthy_def)
  with known obtain parent where parent: "m q = Some parent" by auto
  with fresh have qi: "q \<noteq> msg_id msg" by auto
  let ?i = "msg_id msg"
  let ?parent' = "parent\<lparr>childrenIds := childrenIds parent @ [?i]\<rparr>"
  let ?m' = "(m(?i \<mapsto> msg))(q \<mapsto> ?parent')"
  let ?u = "\<lambda>x. if msg_id x = q then x\<lparr>childrenIds := childrenIds x @ [?i]\<rparr> else x"
  have "appendToTree p msg m = Inr ?m'"
    using True q parent qi appendToTree_linked [of p m msg parent] by simp
  with ok have eq: "m' = ?m'" by simp
  have ext: "\<And>k x. m k = Some x \<Longrightarrow> ?m' k = Some (?u x)"
  proof -
    fix k x
    assume kx: "m k = Some x"
    with ki have id: "msg_id x = k" by (simp add: keys_are_ids_def)
    from kx fresh have "k \<noteq> ?i" by auto
    with kx id parent show "?m' k = Some (?u x)" by auto
  qed
  have upar: "\<And>x. parentId (?u x) = parentId x" by simp
  have old: "\<exists>t. thread_of ?m' h (map Stored t)" if "m h = Some n" for h n
  proof -
    from that at obtain t where t: "thread_of m h (map Stored t)"
      unfolding all_threaded_def by blast
    have "thread_of ?m' h (map Stored (map ?u t))"
      by (rule thread_of_map [where m = m and u = ?u, OF ext upar pp t])
    then show ?thesis ..
  qed
  show ?thesis
    unfolding eq all_threaded_def
  proof (intro allI impI)
    fix h n
    assume hn: "?m' h = Some n"
    show "\<exists>t. thread_of ?m' h (map Stored t)"
    proof (cases "h = ?i")
      case False
      with hn parent have "\<exists>n'. m h = Some n'" by (auto split: if_splits)
      then show ?thesis using old by blast
    next
      case True
      from old [OF parent] obtain tq where tq: "thread_of ?m' q (map Stored tq)" by blast
      from tq [unfolded thread_of_def] have tne: "tq \<noteq> []"
        and tl: "lookup ?m' q = Some (last (map Stored tq))"
        and tr: "is_root ?m' (hd (map Stored tq))" and l0: "linked ?m' (map Stored tq)"
        by simp_all
      from tne obtain pre y where tqd: "tq = pre @ [y]" by (cases tq rule: rev_cases) simp_all
      have tp: "truthy (prop_parentId (Stored msg))" using par q by (simp add: truthy_def)
      have py: "lookup ?m' (the (prop_parentId (Stored msg))) = Some (Stored y)"
        using tl unfolding tqd by (simp add: par q(1))
      have l1: "linked ?m' (map Stored pre @ [Stored y])" using l0 unfolding tqd by simp
      have lk: "linked ?m' (map Stored pre @ [Stored y, Stored msg])"
        unfolding linked_snoc2 using l1 tp py by (intro conjI)
      have rt: "is_root ?m' (hd (map Stored (tq @ [msg])))"
        using tr tne by (simp add: hd_map hd_append)
      have "thread_of ?m' ?i (map Stored (tq @ [msg]))"
        unfolding thread_of_def
      proof (intro conjI)
        show "map Stored (tq @ [msg]) \<noteq> []" by simp
        show "lookup ?m' ?i = Some (last (map Stored (tq @ [msg])))"
          using qi by (simp add: lookup_def)
        show "is_root ?m' (hd (map Stored (tq @ [msg])))" by (rule rt)
        show "linked ?m' (map Stored (tq @ [msg]))" using lk unfolding tqd by simp
      qed
      with True show ?thesis by blast
    qed
  qed
qed

lemma appends_all_threaded:
  "keys_are_ids m \<Longrightarrow> parents_present m \<Longrightarrow> all_threaded m
   \<Longrightarrow> caller_discipline m ops \<Longrightarrow> parents_known m ops
   \<Longrightarrow> appends m ops = Inr m' \<Longrightarrow> all_threaded m'"
proof (induction ops arbitrary: m)
  case Nil
  then show ?case by simp
next
  case (Cons op ops)
  obtain p msg where op: "op = (p, msg)" by (cases op)
  from Cons.prems(6) op obtain m1 where m1: "appendToTree p msg m = Inr m1"
    and rest: "appends m1 ops = Inr m'"
    by (cases "appendToTree p msg m") simp_all
  from Cons.prems(4,5) op m1 have fresh: "m (msg_id msg) = None" and par: "parentId msg = p"
    and known: "case p of None \<Rightarrow> True | Some q \<Rightarrow> m q \<noteq> None"
    and disc: "caller_discipline m1 ops" "parents_known m1 ops"
    by simp_all
  have k: "keys_are_ids m1"
    using Cons.prems(1) m1 by (rule appendToTree_keys_are_ids)
  have pp: "parents_present m1"
    using Cons.prems(2) par known m1 by (rule appendToTree_parents_present)
  have at: "all_threaded m1"
    using Cons.prems(1,2,3) fresh par known m1 by (rule appendToTree_all_threaded)
  from k pp at disc rest show ?case by (rule Cons.IH)
qed

lemma getThread_loop_builtin:
  "h \<noteq> [] \<Longrightarrow> lookup m h = Some (Inherited k) \<Longrightarrow> getThread_loop m (Some h) [] = Some [Inherited k]"
proof -
  assume h: "h \<noteq> []" and l: "lookup m h = Some (Inherited k)"
  have "thread_of m h [Inherited k]" using l by (simp add: thread_of_def is_root_def truthy_def)
  from getThread_loop_complete [OF this h, of "[]"] show ?thesis by simp
qed

lemma getThread_returns_all_threaded:
  assumes at: "all_threaded m"
  shows "\<exists>t. getThread m headId = Some t"
proof (cases "\<not> truthy headId \<or> lookup m (the headId) = None")
  case True
  then show ?thesis by (auto simp: getThread_def)
next
  case False
  then obtain h where h: "headId = Some h" "h \<noteq> []" "lookup m h \<noteq> None"
    by (cases headId) (auto simp: truthy_def)
  show ?thesis
  proof (cases m h rule: lookup_cases)
    case missing
    with h show ?thesis by simp
  next
    case builtin
    with h have "getThread_loop m (Some h) [] = Some [Inherited h]"
      by (intro getThread_loop_builtin)
    with h show ?thesis by (auto simp: getThread_def truthy_def)
  next
    case (stored n)
    with at obtain t where "thread_of m h (map Stored t)"
      unfolding all_threaded_def by blast
    with h have "getThread_loop m (Some h) [] = Some (map Stored t)"
      using getThread_loop_iff [of h m "map Stored t"] by simp
    with h show ?thesis by (auto simp: getThread_def truthy_def)
  qed
qed

lemma appends_invariants:
  assumes "caller_discipline Map.empty ops" and "parents_known Map.empty ops"
    and m: "appends Map.empty ops = Inr m"
  shows "keys_are_ids m" and "parents_present m" and "all_threaded m"
proof -
  have e: "keys_are_ids Map.empty" "children_linked Map.empty" "parents_present Map.empty"
      "all_threaded Map.empty"
    by (simp_all add: keys_are_ids_def children_linked_def parents_present_def all_threaded_def)
  from appends_keys_children [OF e(1,2) assms(1) m] show "keys_are_ids m" by simp
  from e(3) assms(1,2) m show "parents_present m" by (rule appends_parents_present)
  from e(1,3,4) assms(1,2) m show "all_threaded m" by (rule appends_all_threaded)
qed

lemma getThread_returns_on_appends:
  assumes "caller_discipline Map.empty ops" and "parents_known Map.empty ops"
  shows "\<exists>m. appends Map.empty ops = Inr m \<and> (\<forall>headId. \<exists>t. getThread m headId = Some t)"
proof -
  from assms(2) obtain m where m: "appends Map.empty ops = Inr m"
    using appends_known_returns by blast
  from assms m have "all_threaded m" by (rule appends_invariants)
  then have "\<forall>headId. \<exists>t. getThread m headId = Some t"
    using getThread_returns_all_threaded by blast
  with m show ?thesis by blast
qed

text \<open>
  On a tree built by appending, a turn that starts from a stored head with a new id for its
  placeholder node gets its placeholder appended and its thread projected.
\<close>

lemma turn_start_on_appends:
  assumes "caller_discipline Map.empty ops" and "parents_known Map.empty ops"
    and m: "appends Map.empty ops = Inr startMap"
    and head: "startMap startHeadId \<noteq> None" and fresh: "startMap modelMsgId = None"
  shows "\<exists>currentMap history.
           appendToTree (Some startHeadId) (initialModelMsg modelMsgId time startHeadId) startMap
             = Inr currentMap
           \<and> getThread currentMap (Some startHeadId) = Some history"
proof -
  let ?node = "initialModelMsg modelMsgId time startHeadId"
  have known: "case Some startHeadId of None \<Rightarrow> True | Some q \<Rightarrow> startMap q \<noteq> None"
    using head by simp
  then obtain currentMap where c: "appendToTree (Some startHeadId) ?node startMap = Inr currentMap"
    using appendToTree_known by blast
  note inv = appends_invariants [OF assms(1,2) m]
  have "all_threaded currentMap"
  proof (rule appendToTree_all_threaded [OF inv _ _ known c])
    show "startMap (msg_id ?node) = None" using fresh by (simp add: initialModelMsg_def)
    show "parentId ?node = Some startHeadId" by (simp add: initialModelMsg_def)
  qed
  then obtain history where "getThread currentMap (Some startHeadId) = Some history"
    using getThread_returns_all_threaded by blast
  with c show ?thesis by blast
qed

lemma thread_of_last:
  "thread_of m h t \<Longrightarrow> lookup m h = Some (last t)"
  by (simp add: thread_of_def)

lemma getThread_Some_thread:
  assumes "getThread m headId = Some t" and "t \<noteq> []"
  shows "truthy headId \<and> lookup m (the headId) \<noteq> None \<and> thread_of m (the headId) t"
proof -
  from assms have nt: "\<not> (\<not> truthy headId \<or> lookup m (the headId) = None)"
    by (auto simp: getThread_def split: if_splits)
  then obtain h where h: "headId = Some h" "h \<noteq> []" "lookup m h \<noteq> None"
    by (cases headId) (simp_all add: truthy_def)
  with assms have "getThread_loop m (Some h) [] = Some t"
    by (auto simp: getThread_def truthy_def)
  with getThread_loop_iff [of h m t, OF h(2,3)] have "thread_of m h t" by simp
  with nt h(1) show ?thesis by simp
qed

text \<open>
  C2, as amended. A head id is found in the mapping when it is a key of the mapping or the
  name of a property inherited from \<open>Object.prototype\<close>. \<open>getThread\<close> returns the empty
  sequence when the head id is null, empty or not found. Otherwise it returns exactly when a
  thread of the head exists, that is, when the walk along the \<open>parentId\<close> links reaches, after
  finitely many steps, an element whose \<open>parentId\<close> is null, undefined or empty, or names
  nothing that is found; it then returns that root-first thread, which ends with what is
  found under the head id. When that is a stored node and nodes are stored under their own
  ids, its id is the head id. For a head id that is not a key and names an inherited
  property, the thread is the built-in alone.
\<close>

theorem C2_getThread:
  "(\<not> truthy headId \<or> (m (the headId) = None \<and> the headId \<notin> set object_prototype_keys)
      \<longrightarrow> getThread m headId = Some [])
   \<and> (truthy headId \<and> (m (the headId) \<noteq> None \<or> the headId \<in> set object_prototype_keys) \<longrightarrow>
        (\<forall>t. getThread m headId = Some t \<longleftrightarrow> thread_of m (the headId) t))
   \<and> (\<forall>t. getThread m headId = Some t \<and> t \<noteq> [] \<longrightarrow> lookup m (the headId) = Some (last t))
   \<and> (\<forall>t n. keys_are_ids m \<and> getThread m headId = Some t \<and> t \<noteq> [] \<and> last t = Stored n
          \<longrightarrow> headId = Some (msg_id n))
   \<and> (truthy headId \<and> m (the headId) = None \<and> the headId \<in> set object_prototype_keys
        \<longrightarrow> getThread m headId = Some [Inherited (the headId)])"
proof (intro conjI impI allI)
  assume "\<not> truthy headId \<or> (m (the headId) = None \<and> the headId \<notin> set object_prototype_keys)"
  then have "\<not> truthy headId \<or> lookup m (the headId) = None" by (simp add: lookup_None)
  then show "getThread m headId = Some []" by (auto simp: getThread_def)
next
  fix t
  assume a: "truthy headId \<and> (m (the headId) \<noteq> None \<or> the headId \<in> set object_prototype_keys)"
  then have "lookup m (the headId) \<noteq> None" by (simp add: lookup_None)
  with a obtain h where h: "headId = Some h" "h \<noteq> []" "lookup m h \<noteq> None"
    by (cases headId) (simp_all add: truthy_def)
  then have "getThread m headId = getThread_loop m (Some h) []"
    by (auto simp: getThread_def truthy_def)
  with getThread_loop_iff [of h m t, OF h(2,3)] h(1)
  show "getThread m headId = Some t \<longleftrightarrow> thread_of m (the headId) t" by simp
next
  fix t
  assume "getThread m headId = Some t \<and> t \<noteq> []"
  then have "thread_of m (the headId) t" using getThread_Some_thread by blast
  then show "lookup m (the headId) = Some (last t)" by (rule thread_of_last)
next
  fix t n
  assume a: "keys_are_ids m \<and> getThread m headId = Some t \<and> t \<noteq> [] \<and> last t = Stored n"
  then have th: "truthy headId" "thread_of m (the headId) t"
    using getThread_Some_thread by blast+
  from th(2) a have "lookup m (the headId) = Some (Stored n)" by (simp add: thread_of_def)
  then have "m (the headId) = Some n" by (simp only: lookup_Stored)
  with a have "msg_id n = the headId" unfolding keys_are_ids_def by blast
  with th(1) show "headId = Some (msg_id n)" by (cases headId) (simp_all add: truthy_def)
next
  assume a: "truthy headId \<and> m (the headId) = None \<and> the headId \<in> set object_prototype_keys"
  then obtain h where h: "headId = Some h" "h \<noteq> []"
    by (cases headId) (simp_all add: truthy_def)
  with a have l: "lookup m h = Some (Inherited h)" by (simp add: lookup_Inherited)
  with h(2) have "getThread_loop m (Some h) [] = Some [Inherited h]"
    by (rule getThread_loop_builtin)
  with h l show "getThread m headId = Some [Inherited (the headId)]"
    by (simp add: getThread_def truthy_def)
qed

text \<open>
  The theorem at a two-node mapping, for a null head, a head that is not found, a stored head
  and the head \<open>constructor\<close>.
\<close>

theorem C2_witness:
  "getThread [''a'' \<mapsto> user_node ''a'' None [''b''], ''b'' \<mapsto> user_node ''b'' (Some ''a'') []] None
     = Some []
   \<and> getThread [''a'' \<mapsto> user_node ''a'' None [''b''], ''b'' \<mapsto> user_node ''b'' (Some ''a'') []]
        (Some ''ghost'') = Some []
   \<and> getThread [''a'' \<mapsto> user_node ''a'' None [''b''], ''b'' \<mapsto> user_node ''b'' (Some ''a'') []]
        (Some ''b'')
      = Some [Stored (user_node ''a'' None [''b'']), Stored (user_node ''b'' (Some ''a'') [])]
   \<and> lookup [''a'' \<mapsto> user_node ''a'' None [''b''], ''b'' \<mapsto> user_node ''b'' (Some ''a'') []]
        ''b'' = Some (Stored (user_node ''b'' (Some ''a'') []))
   \<and> Some ''b'' = Some (msg_id (user_node ''b'' (Some ''a'') []))
   \<and> getThread [''a'' \<mapsto> user_node ''a'' None [''b''], ''b'' \<mapsto> user_node ''b'' (Some ''a'') []]
        (Some ''constructor'') = Some [Inherited ''constructor'']"
proof -
  let ?m = "[''a'' \<mapsto> user_node ''a'' None [''b''], ''b'' \<mapsto> user_node ''b'' (Some ''a'') []]"
  let ?t = "[Stored (user_node ''a'' None [''b'']), Stored (user_node ''b'' (Some ''a'') [])]"
  have n: "\<not> truthy None \<or> (?m (the None) = None \<and> the None \<notin> set object_prototype_keys)"
    by (simp add: truthy_def)
  have g: "\<not> truthy (Some ''ghost'')
      \<or> (?m (the (Some ''ghost'')) = None \<and> the (Some ''ghost'') \<notin> set object_prototype_keys)"
    by (simp add: object_prototype_keys_def)
  have p: "truthy (Some ''b'')
      \<and> (?m (the (Some ''b'')) \<noteq> None \<or> the (Some ''b'') \<in> set object_prototype_keys)"
    by (simp add: truthy_def)
  have th: "thread_of ?m (the (Some ''b'')) ?t"
    by (simp add: thread_of_def is_root_def truthy_def lookup_def)
  have k: "keys_are_ids ?m"
    unfolding keys_are_ids_def by (auto split: if_splits)
  have i: "truthy (Some ''constructor'') \<and> ?m (the (Some ''constructor'')) = None
      \<and> the (Some ''constructor'') \<in> set object_prototype_keys"
    by (simp add: truthy_def object_prototype_keys_def)
  note c1 = C2_getThread [of None ?m, THEN conjunct1, THEN mp, OF n]
  note c2 = C2_getThread [of "Some ''ghost''" ?m, THEN conjunct1, THEN mp, OF g]
  note iff = C2_getThread [of "Some ''b''" ?m, THEN conjunct2, THEN conjunct1, THEN mp, OF p,
      THEN spec, of ?t]
  from iff th have c3: "getThread ?m (Some ''b'') = Some ?t" by (rule iffD2)
  have "getThread ?m (Some ''b'') = Some ?t \<and> ?t \<noteq> []" using c3 by simp
  note c4 = C2_getThread [of "Some ''b''" ?m, THEN conjunct2, THEN conjunct2, THEN conjunct1,
      THEN spec, of ?t, THEN mp, OF this]
  have c4': "lookup ?m ''b'' = Some (Stored (user_node ''b'' (Some ''a'') []))"
    using c4 by simp
  have "keys_are_ids ?m \<and> getThread ?m (Some ''b'') = Some ?t \<and> ?t \<noteq> []
      \<and> last ?t = Stored (user_node ''b'' (Some ''a'') [])"
    using k c3 by simp
  note c5 = C2_getThread [of "Some ''b''" ?m, THEN conjunct2, THEN conjunct2, THEN conjunct2,
      THEN conjunct1, THEN spec, of ?t, THEN spec, of "user_node ''b'' (Some ''a'') []",
      THEN mp, OF this]
  note c6 = C2_getThread [of "Some ''constructor''" ?m, THEN conjunct2, THEN conjunct2,
      THEN conjunct2, THEN conjunct2, THEN mp, OF i]
  have c6': "getThread ?m (Some ''constructor'') = Some [Inherited ''constructor'']"
    using c6 by simp
  show ?thesis by (intro conjI c1 c2 c3 c4' c5 c6')
qed

lemma getThread_loop_self_parent:
  assumes "getThread_loop m0 cur0 acc0 = Some t0"
  shows "\<not> (\<exists>x. cur0 = Some a \<and> a \<noteq> [] \<and> m0 a = Some x \<and> parentId x = Some a)"
proof (rule getThread_loop.raw_induct
    [where P = "\<lambda>m cur acc t.
        \<not> (\<exists>x. cur = Some a \<and> a \<noteq> [] \<and> m a = Some x \<and> parentId x = Some a)",
     OF _ assms])
  fix loop :: "messageMap \<Rightarrow> string option \<Rightarrow> Property list \<Rightarrow> Property list option"
    and m cur acc t
  assume ih: "\<And>m cur acc t. loop m cur acc = Some t \<Longrightarrow>
      \<not> (\<exists>x. cur = Some a \<and> a \<noteq> [] \<and> m a = Some x \<and> parentId x = Some a)"
    and body: "(if truthy cur
      then case lookup m (the cur) of None \<Rightarrow> Some acc
           | Some msg \<Rightarrow> loop m (prop_parentId msg) (msg # acc)
      else Some acc) = Some t"
  show "\<not> (\<exists>x. cur = Some a \<and> a \<noteq> [] \<and> m a = Some x \<and> parentId x = Some a)"
  proof
    assume "\<exists>x. cur = Some a \<and> a \<noteq> [] \<and> m a = Some x \<and> parentId x = Some a"
    then obtain x where x: "cur = Some a" "a \<noteq> []" "m a = Some x" "parentId x = Some a"
      by blast
    from x(3) have "lookup m a = Some (Stored x)" by (rule lookup_stored)
    with x body have "loop m (Some a) (Stored x # acc) = Some t" by (simp add: truthy_def)
    from ih [OF this] x show False by blast
  qed
qed

text \<open>
  C2 as written fails on a mapping whose only node names itself as its parent: the head is
  present, the walk never reaches a root, and \<open>getThread\<close> does not return. It also fails
  for the head id \<open>constructor\<close> on the empty mapping: the head is absent from the mapping,
  and the sequence returned is not empty.
\<close>

theorem C2_counterexample:
  "[''a'' \<mapsto> user_node ''a'' (Some ''a'') [''a'']] ''a'' \<noteq> None
   \<and> getThread [''a'' \<mapsto> user_node ''a'' (Some ''a'') [''a'']] (Some ''a'') = None
   \<and> Map.empty ''constructor'' = (None :: Message option)
   \<and> getThread Map.empty (Some ''constructor'') = Some [Inherited ''constructor'']"
proof -
  let ?m = "[''a'' \<mapsto> user_node ''a'' (Some ''a'') [''a'']]"
  have "getThread_loop ?m (Some ''a'') [] = None"
  proof (cases "getThread_loop ?m (Some ''a'') []")
    case None
    then show ?thesis .
  next
    case (Some t)
    from getThread_loop_self_parent [OF this, of "''a''"] show ?thesis by simp
  qed
  then have 1: "getThread ?m (Some ''a'') = None"
    by (simp add: getThread_def truthy_def lookup_def)
  have "getThread_loop Map.empty (Some ''constructor'') [] = Some [Inherited ''constructor'']"
    by (rule getThread_loop_builtin) (simp_all add: lookup_empty_constructor)
  then have 2: "getThread Map.empty (Some ''constructor'') = Some [Inherited ''constructor'']"
    by (simp add: getThread_def truthy_def lookup_empty_constructor)
  from 1 2 show ?thesis by simp
qed

text \<open>
  Two more inputs on which the claim as written fails: an empty head id that is a key of the
  mapping gives the empty sequence, and a node stored under a key other than its id makes the
  last element's id differ from the head id.
\<close>

lemma getThread_empty_head_id:
  "getThread [[] \<mapsto> user_node [] None []] (Some []) = Some []"
  by (simp add: getThread_def truthy_def)

lemma getThread_key_not_id:
  "getThread [''k'' \<mapsto> user_node ''a'' None []] (Some ''k'')
     = Some [Stored (user_node ''a'' None [])]"
  by (simp add: getThread_def truthy_def getThread_loop.simps lookup_def)

subsection \<open>The descent to a leaf ends on every tree built by appending\<close>

lemma descends_insert_leaf:
  assumes "descends m p r" and "m i = None" and "childrenIds msg = []"
  shows "\<exists>r'. descends (m(i \<mapsto> msg)) p r'"
  using assms
proof (induction rule: descends.induct)
  case (at_missing m p)
  show ?case
  proof (cases "p = i")
    case True
    then have "(m(i \<mapsto> msg)) p = Some msg" by simp
    from this at_missing(3) have "descends (m(i \<mapsto> msg)) p (Inr p)" by (rule descends.at_leaf)
    then show ?thesis ..
  next
    case False
    with at_missing have "lookup (m(i \<mapsto> msg)) p = None" by (simp add: lookup_upd)
    then have "descends (m(i \<mapsto> msg)) p (Inr p)" by (rule descends.at_missing)
    then show ?thesis ..
  qed
next
  case (at_builtin m p k)
  show ?case
  proof (cases "p = i")
    case True
    then have "(m(i \<mapsto> msg)) p = Some msg" by simp
    from this at_builtin(3) have "descends (m(i \<mapsto> msg)) p (Inr p)" by (rule descends.at_leaf)
    then show ?thesis ..
  next
    case False
    with at_builtin have "lookup (m(i \<mapsto> msg)) p = Some (Inherited k)"
      by (simp add: lookup_upd)
    then have "descends (m(i \<mapsto> msg)) p (Inl (ReadProperty JUndefined ''length''))" by (rule descends.at_builtin)
    then show ?thesis ..
  qed
next
  case (at_leaf m p n)
  then have "(m(i \<mapsto> msg)) p = Some n" by auto
  from this at_leaf(2) have "descends (m(i \<mapsto> msg)) p (Inr p)" by (rule descends.at_leaf)
  then show ?case ..
next
  case (down m p n r)
  then have a: "(m(i \<mapsto> msg)) p = Some n" by auto
  from down obtain r' where c: "descends (m(i \<mapsto> msg)) (last (childrenIds n)) r'" by blast
  from a down(2) c have "descends (m(i \<mapsto> msg)) p r'" by (rule descends.down)
  then show ?case ..
qed

lemma descends_add_last_child:
  assumes "descends m p r" and "m q = Some parent" and "m i = Some x" and "childrenIds x = []"
    and "i \<noteq> q"
  shows "\<exists>r'. descends (m(q \<mapsto> parent\<lparr>childrenIds := childrenIds parent @ [i]\<rparr>)) p r'"
  using assms
proof (induction rule: descends.induct)
  case (at_missing m p)
  let ?m' = "m(q \<mapsto> parent\<lparr>childrenIds := childrenIds parent @ [i]\<rparr>)"
  from at_missing have "p \<noteq> q" by (auto simp: lookup_def)
  with at_missing have "lookup ?m' p = None" by (simp add: lookup_upd)
  then have "descends ?m' p (Inr p)" by (rule descends.at_missing)
  then show ?case ..
next
  case (at_builtin m p k)
  let ?m' = "m(q \<mapsto> parent\<lparr>childrenIds := childrenIds parent @ [i]\<rparr>)"
  from at_builtin have "p \<noteq> q" by (auto simp: lookup_def)
  with at_builtin have "lookup ?m' p = Some (Inherited k)" by (simp add: lookup_upd)
  then have "descends ?m' p (Inl (ReadProperty JUndefined ''length''))" by (rule descends.at_builtin)
  then show ?case ..
next
  case (at_leaf m p n)
  let ?parent' = "parent\<lparr>childrenIds := childrenIds parent @ [i]\<rparr>"
  let ?m' = "m(q \<mapsto> ?parent')"
  from at_leaf have "?m' i = Some x" by simp
  from this at_leaf(5) have li: "descends ?m' i (Inr i)" by (rule descends.at_leaf)
  show ?case
  proof (cases "p = q")
    case False
    with at_leaf have "?m' p = Some n" by simp
    from this at_leaf(2) have "descends ?m' p (Inr p)" by (rule descends.at_leaf)
    then show ?thesis ..
  next
    case True
    have a: "?m' q = Some ?parent'" by simp
    have b: "childrenIds ?parent' \<noteq> []" by simp
    have c: "descends ?m' (last (childrenIds ?parent')) (Inr i)" using li by simp
    from a b c have "descends ?m' q (Inr i)" by (rule descends.down)
    with True show ?thesis by blast
  qed
next
  case (down m p n r)
  let ?parent' = "parent\<lparr>childrenIds := childrenIds parent @ [i]\<rparr>"
  let ?m' = "m(q \<mapsto> ?parent')"
  from down have "?m' i = Some x" by simp
  from this down(7) have li: "descends ?m' i (Inr i)" by (rule descends.at_leaf)
  show ?case
  proof (cases "p = q")
    case False
    with down have a: "?m' p = Some n" by simp
    from down obtain r' where c: "descends ?m' (last (childrenIds n)) r'" by blast
    from a down(2) c have "descends ?m' p r'" by (rule descends.down)
    then show ?thesis ..
  next
    case True
    have a: "?m' q = Some ?parent'" by simp
    have b: "childrenIds ?parent' \<noteq> []" by simp
    have c: "descends ?m' (last (childrenIds ?parent')) (Inr i)" using li by simp
    from a b c have "descends ?m' q (Inr i)" by (rule descends.down)
    with True show ?thesis by blast
  qed
qed

lemma appendToTree_all_descend:
  assumes ad: "all_descend m" and fresh: "m (msg_id msg) = None" and leaf: "childrenIds msg = []"
    and known: "case p of None \<Rightarrow> True | Some q \<Rightarrow> m q \<noteq> None"
    and ok: "appendToTree p msg m = Inr m'"
  shows "all_descend m'"
proof -
  let ?i = "msg_id msg"
  let ?m1 = "m(?i \<mapsto> msg)"
  have d1: "\<exists>r. descends ?m1 s r" for s
  proof -
    from ad obtain r where "descends m s r" unfolding all_descend_def by blast
    then show ?thesis using fresh leaf by (rule descends_insert_leaf)
  qed
  from ok show ?thesis
  proof (cases rule: appendToTree_cases)
    case unlinked
    with d1 show ?thesis by (simp add: all_descend_def)
  next
    case (linked parent)
    have other: "the p \<noteq> ?i"
    proof
      assume "the p = ?i"
      with linked(1) fresh known show False by (cases p) (simp_all add: truthy_def)
    qed
    have "\<exists>r. descends (?m1(the p \<mapsto> parent\<lparr>childrenIds := childrenIds parent @ [?i]\<rparr>)) s r"
      for s
    proof -
      from d1 obtain r where "descends ?m1 s r" by blast
      then show ?thesis
        using linked(2) _ leaf
        by (rule descends_add_last_child [where x = msg]) (simp_all add: other [symmetric])
    qed
    then show ?thesis unfolding linked(3) all_descend_def by blast
  qed
qed

lemma appends_all_descend:
  "all_descend m \<Longrightarrow> caller_discipline m ops \<Longrightarrow> parents_known m ops
   \<Longrightarrow> appends m ops = Inr m' \<Longrightarrow> all_descend m'"
proof (induction ops arbitrary: m)
  case Nil
  then show ?case by simp
next
  case (Cons op ops)
  obtain p msg where op: "op = (p, msg)" by (cases op)
  from Cons.prems(4) op obtain m1 where m1: "appendToTree p msg m = Inr m1"
    and rest: "appends m1 ops = Inr m'"
    by (cases "appendToTree p msg m") simp_all
  from Cons.prems(2,3) op m1 have fresh: "m (msg_id msg) = None" and leaf: "childrenIds msg = []"
    and known: "case p of None \<Rightarrow> True | Some q \<Rightarrow> m q \<noteq> None"
    and disc: "caller_discipline m1 ops" "parents_known m1 ops" by simp_all
  have "all_descend m1"
    using Cons.prems(1) fresh leaf known m1 by (rule appendToTree_all_descend)
  from this disc rest show ?case by (rule Cons.IH)
qed

lemma all_descend_empty: "all_descend Map.empty"
  unfolding all_descend_def
proof
  fix p
  show "\<exists>r. descends Map.empty p r"
  proof (cases "Map.empty :: messageMap" p rule: lookup_cases)
    case missing
    then have "descends Map.empty p (Inr p)" by (intro descends.at_missing)
    then show ?thesis ..
  next
    case builtin
    then have "descends Map.empty p (Inl (ReadProperty JUndefined ''length''))" by (intro descends.at_builtin)
    then show ?thesis ..
  next
    case (stored n)
    then show ?thesis by simp
  qed
qed

subsection \<open>The branch navigator\<close>

lemma indexOf_ge: "- 1 \<le> indexOf xs x"
  by (induction xs) (auto simp: Let_def)

lemma indexOf_absent: "indexOf xs x = - 1 \<longleftrightarrow> x \<notin> set xs"
proof (induction xs)
  case Nil
  show ?case by simp
next
  case (Cons y ys)
  from indexOf_ge [of ys x] Cons show ?case by (auto simp: Let_def)
qed

lemma indexOf_found:
  "0 \<le> indexOf xs x \<Longrightarrow> nat (indexOf xs x) < length xs \<and> xs ! nat (indexOf xs x) = x"
proof (induction xs)
  case Nil
  then show ?case by simp
next
  case (Cons y ys)
  show ?case
  proof (cases "y = x")
    case True
    then show ?thesis by simp
  next
    case False
    with Cons.prems have i: "0 \<le> indexOf ys x" by (auto simp: Let_def split: if_splits)
    with False have "indexOf (y # ys) x = indexOf ys x + 1" by (simp add: Let_def)
    moreover from i have "nat (indexOf ys x + 1) = Suc (nat (indexOf ys x))" by simp
    ultimately show ?thesis using Cons.IH [OF i] by simp
  qed
qed

lemma find_leaf_sound:
  assumes "find_leaf m0 p0 = Some r0"
  shows "descends m0 p0 r0"
proof (rule find_leaf.raw_induct [where P = descends, OF _ assms])
  fix loop :: "messageMap \<Rightarrow> string \<Rightarrow> (TypeError + string) option" and m p r
  assume ih: "\<And>m p r. loop m p = Some r \<Longrightarrow> descends m p r"
    and body: "(case lookup m p of None \<Rightarrow> Some (Inr p)
      | Some (Inherited key) \<Rightarrow> Some (Inl (ReadProperty JUndefined ''length''))
      | Some (Stored node) \<Rightarrow> if childrenIds node = [] then Some (Inr p)
                              else loop m (last (childrenIds node))) = Some r"
  show "descends m p r"
  proof (cases m p rule: lookup_cases)
    case missing
    with body show ?thesis by (auto intro: descends.at_missing)
  next
    case builtin
    with body show ?thesis by (auto intro: descends.at_builtin)
  next
    case (stored node)
    show ?thesis
    proof (cases "childrenIds node = []")
      case True
      with stored body show ?thesis by (auto intro: descends.at_leaf)
    next
      case False
      with stored body have "loop m (last (childrenIds node)) = Some r" by simp
      from ih [OF this] stored(1) False show ?thesis by (rule descends.down [rotated 2])
    qed
  qed
qed

lemma find_leaf_complete: "descends m p r \<Longrightarrow> find_leaf m p = Some r"
proof (induction rule: descends.induct)
  case (at_missing m p)
  then show ?case by (subst find_leaf.simps) simp
next
  case (at_builtin m p k)
  then show ?case by (subst find_leaf.simps) simp
next
  case (at_leaf m p n)
  then show ?case by (subst find_leaf.simps) (simp add: lookup_stored)
next
  case (down m p n r)
  then show ?case by (subst find_leaf.simps) (simp add: lookup_stored)
qed

lemma find_leaf_iff: "find_leaf m p = Some r \<longleftrightarrow> descends m p r"
  using find_leaf_sound find_leaf_complete by blast

lemma navigateBranch_not_found:
  "lookup m msgId = None \<Longrightarrow> navigateBranch m headId msgId d = Some (Inr headId)"
  by (simp add: navigateBranch_def)

lemma navigateBranch_no_parent:
  "lookup m msgId = Some v \<Longrightarrow> \<not> truthy (prop_parentId v)
   \<Longrightarrow> navigateBranch m headId msgId d = Some (Inr headId)"
  by (simp add: navigateBranch_def)

lemma navigateBranch_parent_not_found:
  "lookup m msgId = Some v \<Longrightarrow> lookup m (the (prop_parentId v)) = None
   \<Longrightarrow> navigateBranch m headId msgId d = Some (Inr headId)"
  by (simp add: navigateBranch_def)

lemma navigateBranch_parent_builtin:
  "lookup m msgId = Some v \<Longrightarrow> truthy (prop_parentId v)
   \<Longrightarrow> lookup m (the (prop_parentId v)) = Some (Inherited k)
   \<Longrightarrow> navigateBranch m headId msgId d = Some (Inl (ReadProperty JUndefined ''indexOf''))"
  by (simp add: navigateBranch_def)

lemma navigateBranch_not_listed:
  "lookup m msgId = Some v \<Longrightarrow> m (the (prop_parentId v)) = Some parent
   \<Longrightarrow> msgId \<notin> set (childrenIds parent)
   \<Longrightarrow> navigateBranch m headId msgId d = Some (Inr headId)"
  by (simp add: navigateBranch_def Let_def lookup_stored indexOf_absent)

lemma navigateBranch_found:
  assumes "m msgId = Some msg" "truthy (parentId msg)" "m (the (parentId msg)) = Some parent"
    and "msgId \<in> set (childrenIds parent)"
  shows "navigateBranch m headId msgId d =
     map_option (map_sum id Some) (find_leaf m (childrenIds parent ! nat
       (let i = indexOf (childrenIds parent) msgId; n = int (length (childrenIds parent))
        in case d of Prev \<Rightarrow> (if 0 < i then i - 1 else i)
                   | Next \<Rightarrow> (if i + 1 < n then i + 1 else i))))"
proof -
  let ?i = "indexOf (childrenIds parent) msgId"
  from assms(4) have "?i \<noteq> - 1" by (simp add: indexOf_absent)
  with indexOf_ge [of "childrenIds parent" msgId] have i0: "0 \<le> ?i" by linarith
  from indexOf_found [OF i0] have lt: "?i < int (length (childrenIds parent))" by linarith
  let ?n = "int (length (childrenIds parent))"
  let ?raw = "if ?n \<le> (if (if d = Prev then ?i - 1 else ?i + 1) < 0 then 0
                         else if d = Prev then ?i - 1 else ?i + 1)
              then ?n - 1
              else if (if d = Prev then ?i - 1 else ?i + 1) < 0 then 0
                   else if d = Prev then ?i - 1 else ?i + 1"
  have l1: "lookup m msgId = Some (Stored msg)" using assms(1) by (rule lookup_stored)
  have l2: "lookup m (the (parentId msg)) = Some (Stored parent)"
    using assms(3) by (rule lookup_stored)
  have nb: "navigateBranch m headId msgId d =
      map_option (map_sum id Some) (find_leaf m (childrenIds parent ! nat ?raw))"
    using l1 l2 assms(2) \<open>?i \<noteq> - 1\<close> by (simp add: navigateBranch_def Let_def)
  have "?raw = (case d of Prev \<Rightarrow> (if 0 < ?i then ?i - 1 else ?i)
                        | Next \<Rightarrow> (if ?i + 1 < ?n then ?i + 1 else ?i))"
    using i0 lt by (cases d) auto
  with nb show ?thesis by (simp only: Let_def)
qed

text \<open>
  C9, as amended. What is found under an id is the node stored under it or, for an id that is
  not a key of the mapping, the built-in that \<open>Object.prototype\<close> has under that name.
  \<open>navigateBranch\<close> returns with the head unchanged when nothing is found under the id of
  the node, when what is found has no (or an empty) \<open>parentId\<close>, when nothing is found under
  that \<open>parentId\<close>, or when the node is not listed among the children of its parent; it raises
  a \<open>TypeError\<close>, and sets no head, when a built-in is found under the \<open>parentId\<close>.
  Otherwise the index of the node among its siblings is moved by one and clamped, without
  wraparound, and the head becomes the leaf reached from the sibling at that index through the
  last child at every level: from the next or previous sibling when there is one, and from
  the node itself for \<open>next\<close> on the last sibling and \<open>prev\<close> on the first. In that boundary
  case the head is unchanged exactly when it already is that leaf. The descent ends exactly
  when the last-child path from its start does: with the leaf it reaches, or with a
  \<open>TypeError\<close>, and no head set, when it meets a built-in.
\<close>

theorem C9_navigateBranch:
  "(lookup m msgId = None \<longrightarrow> navigateBranch m headId msgId d = Some (Inr headId))
   \<and> (\<forall>v. lookup m msgId = Some v
           \<and> (\<not> truthy (prop_parentId v) \<or> lookup m (the (prop_parentId v)) = None)
         \<longrightarrow> navigateBranch m headId msgId d = Some (Inr headId))
   \<and> (\<forall>v parent. lookup m msgId = Some v \<and> m (the (prop_parentId v)) = Some parent
           \<and> msgId \<notin> set (childrenIds parent)
         \<longrightarrow> navigateBranch m headId msgId d = Some (Inr headId))
   \<and> (\<forall>v k. lookup m msgId = Some v \<and> truthy (prop_parentId v)
           \<and> lookup m (the (prop_parentId v)) = Some (Inherited k)
         \<longrightarrow> navigateBranch m headId msgId d = Some (Inl (ReadProperty JUndefined ''indexOf'')))
   \<and> (\<forall>msg parent.
         m msgId = Some msg \<and> truthy (parentId msg) \<and> m (the (parentId msg)) = Some parent
         \<and> msgId \<in> set (childrenIds parent) \<longrightarrow>
         (let cs = childrenIds parent; i = indexOf cs msgId
          in 0 \<le> i \<and> i < int (length cs) \<and> cs ! nat i = msgId
           \<and> (i + 1 = int (length cs) \<longrightarrow>
                 navigateBranch m headId msgId Next
                   = map_option (map_sum id Some) (find_leaf m msgId))
           \<and> (i = 0 \<longrightarrow>
                 navigateBranch m headId msgId Prev
                   = map_option (map_sum id Some) (find_leaf m msgId))
           \<and> (i + 1 < int (length cs) \<longrightarrow>
                 navigateBranch m headId msgId Next
                   = map_option (map_sum id Some) (find_leaf m (cs ! nat (i + 1))))
           \<and> (0 < i \<longrightarrow>
                 navigateBranch m headId msgId Prev
                   = map_option (map_sum id Some) (find_leaf m (cs ! nat (i - 1))))
           \<and> ((d = Next \<and> i + 1 = int (length cs) \<or> d = Prev \<and> i = 0) \<longrightarrow>
                 (navigateBranch m headId msgId d = Some (Inr headId)
                    \<longleftrightarrow> (\<exists>l. headId = Some l \<and> descends m msgId (Inr l))))))
   \<and> (\<forall>p r. find_leaf m p = Some r \<longleftrightarrow> descends m p r)"
proof (intro conjI allI impI)
  assume "lookup m msgId = None"
  then show "navigateBranch m headId msgId d = Some (Inr headId)"
    by (rule navigateBranch_not_found)
next
  fix v
  assume a: "lookup m msgId = Some v
      \<and> (\<not> truthy (prop_parentId v) \<or> lookup m (the (prop_parentId v)) = None)"
  then show "navigateBranch m headId msgId d = Some (Inr headId)"
    using navigateBranch_no_parent navigateBranch_parent_not_found by blast
next
  fix v parent
  assume "lookup m msgId = Some v \<and> m (the (prop_parentId v)) = Some parent
      \<and> msgId \<notin> set (childrenIds parent)"
  then show "navigateBranch m headId msgId d = Some (Inr headId)"
    using navigateBranch_not_listed by blast
next
  fix v k
  assume "lookup m msgId = Some v \<and> truthy (prop_parentId v)
      \<and> lookup m (the (prop_parentId v)) = Some (Inherited k)"
  then show "navigateBranch m headId msgId d = Some (Inl (ReadProperty JUndefined ''indexOf''))"
    using navigateBranch_parent_builtin by blast
next
  fix p r
  show "find_leaf m p = Some r \<longleftrightarrow> descends m p r" by (rule find_leaf_iff)
next
  fix msg parent
  assume a: "m msgId = Some msg \<and> truthy (parentId msg) \<and> m (the (parentId msg)) = Some parent
         \<and> msgId \<in> set (childrenIds parent)"
  let ?cs = "childrenIds parent"
  let ?i = "indexOf ?cs msgId"
  from a have "?i \<noteq> - 1" by (simp add: indexOf_absent)
  with indexOf_ge [of ?cs msgId] have i0: "0 \<le> ?i" by linarith
  from indexOf_found [OF i0] have lt: "?i < int (length ?cs)" and at: "?cs ! nat ?i = msgId"
    by simp_all linarith
  from a have a1: "m msgId = Some msg" and a2: "truthy (parentId msg)"
    and a3: "m (the (parentId msg)) = Some parent" and a4: "msgId \<in> set (childrenIds parent)"
    by simp_all
  have nav: "\<And>d. navigateBranch m headId msgId d =
     map_option (map_sum id Some) (find_leaf m (?cs ! nat
       (let i = ?i; n = int (length ?cs)
        in case d of Prev \<Rightarrow> (if 0 < i then i - 1 else i)
                   | Next \<Rightarrow> (if i + 1 < n then i + 1 else i))))"
    by (rule navigateBranch_found [OF a1 a2 a3 a4])
  have last_next: "?i + 1 = int (length ?cs) \<longrightarrow>
      navigateBranch m headId msgId Next = map_option (map_sum id Some) (find_leaf m msgId)"
    using nav [of Next] at by (simp add: Let_def)
  have first_prev: "?i = 0 \<longrightarrow>
      navigateBranch m headId msgId Prev = map_option (map_sum id Some) (find_leaf m msgId)"
    using nav [of Prev] at by (auto simp: Let_def)
  have inner_next: "?i + 1 < int (length ?cs) \<longrightarrow>
      navigateBranch m headId msgId Next
        = map_option (map_sum id Some) (find_leaf m (?cs ! nat (?i + 1)))"
    using nav [of Next] by (simp add: Let_def)
  have inner_prev: "0 < ?i \<longrightarrow>
      navigateBranch m headId msgId Prev
        = map_option (map_sum id Some) (find_leaf m (?cs ! nat (?i - 1)))"
    using nav [of Prev] by (simp add: Let_def)
  have same: "map_option (map_sum id Some) (find_leaf m msgId) = Some (Inr headId)
      \<longleftrightarrow> (\<exists>l. headId = Some l \<and> descends m msgId (Inr l))"
  proof (cases "find_leaf m msgId")
    case None
    then show ?thesis by (auto simp: find_leaf_iff [symmetric])
  next
    case (Some r)
    then show ?thesis by (cases r) (auto simp: find_leaf_iff [symmetric])
  qed
  have boundary: "(d = Next \<and> ?i + 1 = int (length ?cs) \<or> d = Prev \<and> ?i = 0) \<longrightarrow>
      (navigateBranch m headId msgId d = Some (Inr headId)
         \<longleftrightarrow> (\<exists>l. headId = Some l \<and> descends m msgId (Inr l)))"
    using last_next first_prev same by auto
  show "let cs = childrenIds parent; i = indexOf cs msgId
          in 0 \<le> i \<and> i < int (length cs) \<and> cs ! nat i = msgId
           \<and> (i + 1 = int (length cs) \<longrightarrow>
                 navigateBranch m headId msgId Next
                   = map_option (map_sum id Some) (find_leaf m msgId))
           \<and> (i = 0 \<longrightarrow>
                 navigateBranch m headId msgId Prev
                   = map_option (map_sum id Some) (find_leaf m msgId))
           \<and> (i + 1 < int (length cs) \<longrightarrow>
                 navigateBranch m headId msgId Next
                   = map_option (map_sum id Some) (find_leaf m (cs ! nat (i + 1))))
           \<and> (0 < i \<longrightarrow>
                 navigateBranch m headId msgId Prev
                   = map_option (map_sum id Some) (find_leaf m (cs ! nat (i - 1))))
           \<and> ((d = Next \<and> i + 1 = int (length cs) \<or> d = Prev \<and> i = 0) \<longrightarrow>
                 (navigateBranch m headId msgId d = Some (Inr headId)
                    \<longleftrightarrow> (\<exists>l. headId = Some l \<and> descends m msgId (Inr l))))"
    unfolding Let_def
    using i0 lt at last_next first_prev inner_next inner_prev boundary
    by (intro conjI)
qed

lemma find_leaf_branch_tree:
  "find_leaf branch_tree ''b2'' = Some (Inr ''c2'')"
  "find_leaf branch_tree ''b1'' = Some (Inr ''b1'')"
  by (simp_all add: find_leaf.simps lookup_def)

lemma find_leaf_builtin_tree:
  "find_leaf builtin_tree ''b2'' = Some (Inl (ReadProperty JUndefined ''length''))"
  by (simp add: find_leaf.simps lookup_def object_prototype_keys_def)

text \<open>
  The theorem on the tree of \<open>a\<close>, \<open>b1\<close>, \<open>b2\<close>, \<open>c1\<close> and \<open>c2\<close>: at an id under which
  nothing is found; at \<open>constructor\<close>, under which a built-in is found; at the root, which
  has no parent; at \<open>b2\<close>, the last sibling; at \<open>b1\<close>, the first sibling; and at \<open>b2\<close> again
  with the head already on its latest leaf. On the tree with the ids named \<open>toString\<close>: at
  \<open>y\<close>, which its parent does not list; at \<open>x\<close>, whose parent is a built-in; and at \<open>b1\<close>,
  where the descent from the next sibling meets a built-in.
\<close>

theorem C9_witness:
  "navigateBranch branch_tree (Some ''c1'') ''ghost'' Next = Some (Inr (Some ''c1''))
   \<and> navigateBranch branch_tree (Some ''c1'') ''constructor'' Next = Some (Inr (Some ''c1''))
   \<and> navigateBranch branch_tree (Some ''c1'') ''a'' Next = Some (Inr (Some ''c1''))
   \<and> navigateBranch branch_tree (Some ''c1'') ''b2'' Next = Some (Inr (Some ''c2''))
   \<and> navigateBranch branch_tree (Some ''c1'') ''b2'' Prev = Some (Inr (Some ''b1''))
   \<and> navigateBranch branch_tree (Some ''b1'') ''b1'' Prev = Some (Inr (Some ''b1''))
   \<and> navigateBranch branch_tree (Some ''b1'') ''b1'' Next = Some (Inr (Some ''c2''))
   \<and> descends branch_tree ''b2'' (Inr ''c2'')
   \<and> navigateBranch branch_tree (Some ''c2'') ''b2'' Next = Some (Inr (Some ''c2''))
   \<and> navigateBranch builtin_tree (Some ''b1'') ''y'' Next = Some (Inr (Some ''b1''))
   \<and> navigateBranch builtin_tree (Some ''b1'') ''x'' Next
       = Some (Inl (ReadProperty JUndefined ''indexOf''))
   \<and> navigateBranch builtin_tree (Some ''b1'') ''b1'' Next
       = Some (Inl (ReadProperty JUndefined ''length''))"
proof -
  let ?a = "user_node ''a'' None [''b1'', ''b2'']"
  let ?b1 = "user_node ''b1'' (Some ''a'') []"
  let ?b2 = "user_node ''b2'' (Some ''a'') [''c1'', ''c2'']"
  have g: "lookup branch_tree ''ghost'' = None"
    by (simp add: lookup_def object_prototype_keys_def)
  note w0 = C9_navigateBranch [where m = branch_tree and msgId = "''ghost''"
      and headId = "Some ''c1''" and d = Next, THEN conjunct1, THEN mp, OF g]
  have c: "lookup branch_tree ''constructor'' = Some (Inherited ''constructor'')
      \<and> (\<not> truthy (prop_parentId (Inherited ''constructor''))
          \<or> lookup branch_tree (the (prop_parentId (Inherited ''constructor''))) = None)"
    by (simp add: lookup_def object_prototype_keys_def truthy_def)
  note wc = C9_navigateBranch [where m = branch_tree and msgId = "''constructor''"
      and headId = "Some ''c1''" and d = Next, THEN conjunct2, THEN conjunct1, THEN spec,
      THEN mp, OF c]
  have r: "lookup branch_tree ''a'' = Some (Stored ?a)
      \<and> (\<not> truthy (prop_parentId (Stored ?a))
          \<or> lookup branch_tree (the (prop_parentId (Stored ?a))) = None)"
    by (simp add: lookup_def truthy_def)
  note w1 = C9_navigateBranch [where m = branch_tree and msgId = "''a''"
      and headId = "Some ''c1''" and d = Next, THEN conjunct2, THEN conjunct1, THEN spec,
      THEN mp, OF r]
  have h2: "branch_tree ''b2'' = Some ?b2 \<and> truthy (parentId ?b2)
      \<and> branch_tree (the (parentId ?b2)) = Some ?a \<and> ''b2'' \<in> set (childrenIds ?a)"
    by (simp add: truthy_def)
  note main = conjunct2 [THEN conjunct2, THEN conjunct2, THEN conjunct2]
  note t2 = C9_navigateBranch [where m = branch_tree and msgId = "''b2''"
      and headId = "Some ''c1''" and d = Next, THEN main, THEN conjunct1,
      THEN spec, THEN spec, THEN mp, OF h2]
  from t2 have w2: "navigateBranch branch_tree (Some ''c1'') ''b2'' Next
        = Some (Inr (Some ''c2''))"
    and w3: "navigateBranch branch_tree (Some ''c1'') ''b2'' Prev = Some (Inr (Some ''b1''))"
    by (simp_all add: Let_def find_leaf_branch_tree)
  have h1: "branch_tree ''b1'' = Some ?b1 \<and> truthy (parentId ?b1)
      \<and> branch_tree (the (parentId ?b1)) = Some ?a \<and> ''b1'' \<in> set (childrenIds ?a)"
    by (simp add: truthy_def)
  note t1 = C9_navigateBranch [where m = branch_tree and msgId = "''b1''"
      and headId = "Some ''b1''" and d = Prev, THEN main, THEN conjunct1,
      THEN spec, THEN spec, THEN mp, OF h1]
  from t1 have w4: "navigateBranch branch_tree (Some ''b1'') ''b1'' Prev
        = Some (Inr (Some ''b1''))"
    and w5: "navigateBranch branch_tree (Some ''b1'') ''b1'' Next = Some (Inr (Some ''c2''))"
    by (simp_all add: Let_def find_leaf_branch_tree)
  note w6 = C9_navigateBranch [where m = branch_tree and msgId = "''b2''"
      and headId = "Some ''c1''" and d = Next, THEN main, THEN conjunct2,
      THEN spec, THEN spec, THEN iffD1, OF find_leaf_branch_tree(1)]
  note t7 = C9_navigateBranch [where m = branch_tree and msgId = "''b2''"
      and headId = "Some ''c2''" and d = Next, THEN main, THEN conjunct1,
      THEN spec, THEN spec, THEN mp, OF h2]
  from t7 w6 have w7: "navigateBranch branch_tree (Some ''c2'') ''b2'' Next
        = Some (Inr (Some ''c2''))"
    by (simp add: Let_def find_leaf_branch_tree)
  let ?y = "user_node ''y'' (Some ''a'') []"
  let ?x = "user_node ''x'' (Some ''toString'') []"
  let ?b2' = "user_node ''b2'' (Some ''a'') [''toString'']"
  have hy: "lookup builtin_tree ''y'' = Some (Stored ?y)
      \<and> builtin_tree (the (prop_parentId (Stored ?y))) = Some ?a
      \<and> ''y'' \<notin> set (childrenIds ?a)"
    by (simp add: lookup_def)
  note w8 = C9_navigateBranch [where m = builtin_tree and msgId = "''y''"
      and headId = "Some ''b1''" and d = Next, THEN conjunct2, THEN conjunct2, THEN conjunct1,
      THEN spec, THEN spec, THEN mp, OF hy]
  have hx: "lookup builtin_tree ''x'' = Some (Stored ?x) \<and> truthy (prop_parentId (Stored ?x))
      \<and> lookup builtin_tree (the (prop_parentId (Stored ?x))) = Some (Inherited ''toString'')"
    by (simp add: lookup_def truthy_def object_prototype_keys_def)
  note w9 = C9_navigateBranch [where m = builtin_tree and msgId = "''x''"
      and headId = "Some ''b1''" and d = Next, THEN conjunct2, THEN conjunct2, THEN conjunct2,
      THEN conjunct1, THEN spec, THEN spec, THEN mp, OF hx]
  have hb: "builtin_tree ''b1'' = Some ?b1 \<and> truthy (parentId ?b1)
      \<and> builtin_tree (the (parentId ?b1)) = Some ?a \<and> ''b1'' \<in> set (childrenIds ?a)"
    by (simp add: truthy_def)
  note tb = C9_navigateBranch [where m = builtin_tree and msgId = "''b1''"
      and headId = "Some ''b1''" and d = Next, THEN main, THEN conjunct1,
      THEN spec, THEN spec, THEN mp, OF hb]
  from tb have w10: "navigateBranch builtin_tree (Some ''b1'') ''b1'' Next
       = Some (Inl (ReadProperty JUndefined ''length''))"
    by (simp add: Let_def find_leaf_builtin_tree)
  show ?thesis by (intro conjI w0 wc w1 w2 w3 w4 w5 w6 w7 w8 w9 w10)
qed

text \<open>
  C9 as written fails: \<open>b2\<close> is the last sibling, the head is the leaf \<open>c1\<close> below it, and
  \<open>next\<close> on \<open>b2\<close> moves the head to \<open>c2\<close>.
\<close>

theorem C9_counterexample:
  "parentId (the (branch_tree ''b2'')) = Some ''a''
   \<and> indexOf (childrenIds (the (branch_tree ''a''))) ''b2'' + 1
       = int (length (childrenIds (the (branch_tree ''a''))))
   \<and> getThread branch_tree (Some ''c1'')
       = Some [Stored (user_node ''a'' None [''b1'', ''b2'']),
               Stored (user_node ''b2'' (Some ''a'') [''c1'', ''c2'']),
               Stored (user_node ''c1'' (Some ''b2'') [])]
   \<and> navigateBranch branch_tree (Some ''c1'') ''b2'' Next = Some (Inr (Some ''c2''))
   \<and> navigateBranch branch_tree (Some ''c1'') ''b2'' Next \<noteq> Some (Inr (Some ''c1''))"
  by (simp add: navigateBranch_def Let_def truthy_def find_leaf.simps getThread_def
      getThread_loop.simps lookup_def)

subsection \<open>Navigation returns on every tree built by appending\<close>

lemma find_leaf_returns_on_appends:
  assumes "caller_discipline Map.empty ops" and "parents_known Map.empty ops"
    and "appends Map.empty ops = Inr m"
  shows "\<exists>r. find_leaf m p = Some r"
proof -
  have "all_descend m"
    using all_descend_empty assms by (rule appends_all_descend)
  then obtain r where "descends m p r"
    unfolding all_descend_def by blast
  then have "find_leaf m p = Some r" by (rule find_leaf_complete)
  then show ?thesis ..
qed

lemma navigateBranch_returns_on_appends:
  assumes "caller_discipline Map.empty ops" and "parents_known Map.empty ops"
  shows "\<exists>m. appends Map.empty ops = Inr m
     \<and> (\<forall>headId msgId direction. \<exists>h. navigateBranch m headId msgId direction = Some h)"
proof -
  from assms(2) obtain m where m: "appends Map.empty ops = Inr m"
    using appends_known_returns by blast
  have "\<exists>r. find_leaf m p = Some r" for p
    using assms m by (rule find_leaf_returns_on_appends)
  then have f: "\<exists>h. map_option (map_sum id Some) (find_leaf m p) = Some h" for p
    by (metis option.simps(9))
  have "\<exists>h. navigateBranch m headId msgId direction = Some h" for headId msgId direction
    unfolding navigateBranch_def
    using f by (simp add: Let_def split: option.split Property.split)
  with m show ?thesis by blast
qed

section \<open>Properties of the provider adapters\<close>

subsection \<open>Adapter selection\<close>

text \<open>
  C10, as amended. For every configuration whose active model exists, \<open>getRawRequest\<close>
  builds the OpenAI-compatible body exactly when the active model's provider is the string
  \<open>openai\<close> and the Gemini body for every other provider value, and never fails. For
  \<open>sendMessageStream\<close> the same holds when the active model has a non-empty API key; with
  an empty key it fails with the missing-key error, whatever the provider. No provider value
  is rejected.
\<close>

theorem C10_provider_dispatch:
  assumes "find (\<lambda>m. model_id m = activeModelId config) (models config) = Some am"
  shows "(provider am = ''openai'' \<longrightarrow>
            getRawRequest JSON_parse config msgs =
              Inr (OpenAIBody (modelId am)
                     (convertHistoryToOpenAI msgs (buildSystemInstruction config)) True
                     (if filter active (tools config) = [] then None
                      else Some (mapToolsToOpenAI
                                   (map tool_definition (filter active (tools config)))))))
       \<and> (provider am \<noteq> ''openai'' \<longrightarrow>
            getRawRequest JSON_parse config msgs =
              Inr (GeminiBody (modelId am) (convertHistoryToGemini JSON_parse msgs)
                     (buildSystemInstruction config)
                     (if filter active (tools config) = [] then None
                      else Some [map tool_definition (filter active (tools config))])))
       \<and> (apiKey am \<noteq> [] \<and> provider am = ''openai'' \<longrightarrow>
            sendMessageStream config msgs =
              Inr (StreamOpenAI am msgs (buildSystemInstruction config)
                     (map tool_definition (filter active (tools config)))))
       \<and> (apiKey am \<noteq> [] \<and> provider am \<noteq> ''openai'' \<longrightarrow>
            sendMessageStream config msgs =
              Inr (StreamGemini am msgs (buildSystemInstruction config)
                     (map tool_definition (filter active (tools config)))))
       \<and> (apiKey am = [] \<longrightarrow>
            sendMessageStream config msgs = Inl ''API Key is missing for the selected model.'')"
  using assms by (simp add: getRawRequest_def sendMessageStream_def Let_def)

text \<open>
  The theorem at three configurations: provider \<open>openai\<close> with a key, a provider string
  that is neither \<open>openai\<close> nor \<open>gemini\<close> with a key, and provider \<open>gemini\<close> without a key.
\<close>

theorem C10_witness:
  "getRawRequest never_parses (one_model_config ''openai'' ''sk-1'' []) []
     = Inr (OpenAIBody ''model-1'' [SystemMessage ''You are a helpful AI assistant.''] True None)
   \<and> sendMessageStream (one_model_config ''openai'' ''sk-1'' []) ([] :: Message list)
     = Inr (StreamOpenAI \<lparr>model_id = ''m1'', model_name = ''Model'', provider = ''openai'',
                 modelId = ''model-1'', apiKey = ''sk-1'', baseUrl = None\<rparr> []
              ''You are a helpful AI assistant.'' [])
   \<and> getRawRequest never_parses (one_model_config ''mistral'' ''sk-1'' []) []
     = Inr (GeminiBody ''model-1'' [] ''You are a helpful AI assistant.'' None)
   \<and> sendMessageStream (one_model_config ''mistral'' ''sk-1'' []) ([] :: Message list)
     = Inr (StreamGemini \<lparr>model_id = ''m1'', model_name = ''Model'', provider = ''mistral'',
                 modelId = ''model-1'', apiKey = ''sk-1'', baseUrl = None\<rparr> []
              ''You are a helpful AI assistant.'' [])
   \<and> sendMessageStream (one_model_config ''gemini'' [] []) ([] :: Message list)
     = Inl ''API Key is missing for the selected model.''"
proof -
  have f: "\<And>p k. find (\<lambda>m. model_id m = activeModelId (one_model_config p k []))
             (models (one_model_config p k []))
           = Some \<lparr>model_id = ''m1'', model_name = ''Model'', provider = p,
                 modelId = ''model-1'', apiKey = k, baseUrl = None\<rparr>"
    by simp
  note o = C10_provider_dispatch [OF f [of "''openai''" "''sk-1''"], of never_parses "[]"]
  note g = C10_provider_dispatch [OF f [of "''mistral''" "''sk-1''"], of never_parses "[]"]
  note n = C10_provider_dispatch [OF f [of "''gemini''" "[]"], of never_parses "[]"]
  have s: "buildSystemInstruction (one_model_config p k []) = ''You are a helpful AI assistant.''"
    for p k by (simp add: buildSystemInstruction_def)
  have w1: "getRawRequest never_parses (one_model_config ''openai'' ''sk-1'' []) []
     = Inr (OpenAIBody ''model-1'' [SystemMessage ''You are a helpful AI assistant.''] True None)"
    using o [THEN conjunct1] by (simp add: s convertHistoryToOpenAI_def)
  have w2: "sendMessageStream (one_model_config ''openai'' ''sk-1'' []) ([] :: Message list)
     = Inr (StreamOpenAI \<lparr>model_id = ''m1'', model_name = ''Model'', provider = ''openai'',
                 modelId = ''model-1'', apiKey = ''sk-1'', baseUrl = None\<rparr> []
              ''You are a helpful AI assistant.'' [])"
    using o [THEN conjunct2, THEN conjunct2, THEN conjunct1] by (simp add: s)
  have w3: "getRawRequest never_parses (one_model_config ''mistral'' ''sk-1'' []) []
     = Inr (GeminiBody ''model-1'' [] ''You are a helpful AI assistant.'' None)"
    using g [THEN conjunct2, THEN conjunct1] by (simp add: s convertHistoryToGemini_def)
  have w4: "sendMessageStream (one_model_config ''mistral'' ''sk-1'' []) ([] :: Message list)
     = Inr (StreamGemini \<lparr>model_id = ''m1'', model_name = ''Model'', provider = ''mistral'',
                 modelId = ''model-1'', apiKey = ''sk-1'', baseUrl = None\<rparr> []
              ''You are a helpful AI assistant.'' [])"
    using g [THEN conjunct2, THEN conjunct2, THEN conjunct2, THEN conjunct1] by (simp add: s)
  have w5: "sendMessageStream (one_model_config ''gemini'' [] []) ([] :: Message list)
     = Inl ''API Key is missing for the selected model.''"
    using n [THEN conjunct2, THEN conjunct2, THEN conjunct2, THEN conjunct2] by simp
  show ?thesis by (intro conjI w1 w2 w3 w4 w5)
qed

text \<open>
  C10 as written fails for streaming: the active model exists and its provider is
  \<open>openai\<close>, but its API key is empty, and \<open>sendMessageStream\<close> selects no adapter.
\<close>

theorem C10_counterexample:
  "find (\<lambda>m. model_id m = activeModelId (one_model_config ''openai'' [] []))
       (models (one_model_config ''openai'' [] []))
     = Some \<lparr>model_id = ''m1'', model_name = ''Model'', provider = ''openai'',
              modelId = ''model-1'', apiKey = [], baseUrl = None\<rparr>
   \<and> sendMessageStream (one_model_config ''openai'' [] []) ([] :: Message list)
     = Inl ''API Key is missing for the selected model.''"
  by (simp add: sendMessageStream_def)

subsection \<open>The OpenAI-compatible stream parser\<close>

lemma split_not_Nil: "split d s \<noteq> []"
  by (induction s) (auto split: list.splits)

lemma split_Cons_other:
  "c \<noteq> d \<Longrightarrow> split d (c # cs) = (c # hd (split d cs)) # tl (split d cs)"
  using split_not_Nil [of d cs] by (cases "split d cs") simp_all

lemma split_no_separator: "d \<notin> set s \<Longrightarrow> split d s = [s]"
  by (induction s) (auto split: list.splits)

lemma last_split_no_separator: "d \<notin> set (last (split d s))"
proof (induction s)
  case Nil
  show ?case by simp
next
  case (Cons c cs)
  show ?case
  proof (cases "c = d")
    case True
    with Cons split_not_Nil [of d cs] show ?thesis by simp
  next
    case False
    show ?thesis
    proof (cases "split d cs")
      case Nil
      with split_not_Nil show ?thesis by blast
    next
      case (Cons l ls)
      with False Cons.IH show ?thesis by (cases ls) auto
    qed
  qed
qed

lemma split_append:
  "split d (a @ b) = butlast (split d a) @ split d (last (split d a) @ b)"
proof (induction a)
  case Nil
  show ?case by simp
next
  case (Cons c cs)
  show ?case
  proof (cases "c = d")
    case True
    with Cons split_not_Nil [of d cs] show ?thesis by simp
  next
    case False
    show ?thesis
    proof (cases "split d cs")
      case Nil
      with split_not_Nil show ?thesis by blast
    next
      case outer: (Cons l ls)
      show ?thesis
      proof (cases ls)
        case Nil
        with outer Cons.IH False show ?thesis by simp
      next
        case inner: (Cons l' ls')
        with outer Cons.IH False show ?thesis by simp
      qed
    qed
  qed
qed

lemma process_lines_append:
  "process_lines P J st (ls1 @ ls2) =
     (case process_lines P J st ls1 of
        (chunks, None) \<Rightarrow> (chunks, None)
      | (chunks, Some st') \<Rightarrow>
          (let (more, final) = process_lines P J st' ls2 in (chunks @ more, final)))"
proof (induction ls1 arbitrary: st)
  case Nil
  show ?case by (simp split: prod.splits)
next
  case (Cons l ls1)
  show ?case
  proof (cases "process_line P J st l")
    case None
    then show ?thesis by simp
  next
    case (Some r)
    obtain chunks st1 where r: "r = (chunks, st1)" by (cases r)
    from Some r Cons.IH [of st1] show ?thesis
      by (simp split: prod.splits option.splits)
  qed
qed

lemma read_loop_lines:
  "CHR 0x0A \<notin> set buffer \<Longrightarrow>
   read_loop P J buffer st reads =
     fst (process_lines P J st (butlast (split (CHR 0x0A) (buffer @ concat reads))))"
proof (induction reads arbitrary: buffer st)
  case Nil
  then show ?case by (simp add: split_no_separator)
next
  case (Cons v reads)
  let ?pieces = "split (CHR 0x0A) (buffer @ v)"
  have nb: "CHR 0x0A \<notin> set (last ?pieces)" by (rule last_split_no_separator)
  have sp: "split (CHR 0x0A) (buffer @ concat (v # reads)) =
      butlast ?pieces @ split (CHR 0x0A) (last ?pieces @ concat reads)"
    using split_append [of "CHR 0x0A" "buffer @ v" "concat reads"] by simp
  have bl: "butlast (split (CHR 0x0A) (buffer @ concat (v # reads))) =
      butlast ?pieces @ butlast (split (CHR 0x0A) (last ?pieces @ concat reads))"
    unfolding sp by (simp add: butlast_append split_not_Nil)
  obtain chunks final where pl: "process_lines P J st (butlast ?pieces) = (chunks, final)"
    by (cases "process_lines P J st (butlast ?pieces)")
  show ?case
  proof (cases final)
    case None
    with pl show ?thesis unfolding bl process_lines_append by (simp add: Let_def)
  next
    case (Some st')
    from Cons.IH [OF nb, of st'] Some pl show ?thesis
      unfolding bl process_lines_append by (simp add: Let_def split: prod.splits)
  qed
qed

lemma process_line_not_data:
  "\<not> startsWith (trim line) ''data: '' \<Longrightarrow> process_line P J st line = Some ([], st)"
  by (simp add: process_line_def Let_def)

lemma process_line_done:
  "trim line = ''data: [DONE]'' \<Longrightarrow> process_line P J st line = None"
  by (simp add: process_line_def Let_def startsWith_def)

lemma process_line_bad_json:
  "startsWith (trim line) ''data: '' \<Longrightarrow> trim line \<noteq> ''data: [DONE]''
   \<Longrightarrow> P (drop 6 (trim line)) = None \<Longrightarrow> process_line P J st line = Some ([], st)"
  by (simp add: process_line_def Let_def)

lemma process_lines_skip:
  "process_line P J st line = Some ([], st)
   \<Longrightarrow> process_lines P J st (line # lines) = process_lines P J st lines"
  by (simp split: prod.splits)

lemma process_lines_stop:
  assumes "trim line = ''data: [DONE]''"
  shows "process_lines P J st (before @ line # after) = process_lines P J st (before @ [line])"
proof -
  have "\<And>st'. process_lines P J st' (line # after) = process_lines P J st' [line]"
    using assms by (simp add: process_line_done)
  then show ?thesis
    unfolding process_lines_append [of P J st before "line # after"]
      process_lines_append [of P J st before "[line]"]
    by simp
qed

text \<open>
  C8, as amended. In the OpenAI-compatible stream parser, for every sequence of reads: the
  chunks are those of the complete lines of the concatenated input, in order, so a line is
  processed only once its line feed has arrived, however the input is cut into reads. A line
  whose whitespace-trimmed form does not start with \<open>data: \<close> is ignored. A line whose trimmed
  form is \<open>data: [DONE]\<close> ends the stream: nothing after it is processed. A data line whose
  payload \<open>JSON.parse\<close> rejects yields no chunk and changes nothing, and the lines after it
  are processed as if it had not been there; a payload that parses is handled by the
  \<open>try\<close> block.
\<close>

theorem C8_stream_parser:
  "read_loop P J [] [] reads
     = fst (process_lines P J [] (butlast (split (CHR 0x0A) (concat reads))))
   \<and> (\<not> startsWith (trim line) ''data: '' \<longrightarrow>
        process_line P J st line = Some ([], st)
        \<and> process_lines P J st (line # lines) = process_lines P J st lines)
   \<and> (trim line = ''data: [DONE]'' \<longrightarrow>
        process_line P J st line = None
        \<and> process_lines P J st (line # lines) = ([], None)
        \<and> process_lines P J st (before @ line # lines) = process_lines P J st (before @ [line]))
   \<and> (startsWith (trim line) ''data: '' \<and> trim line \<noteq> ''data: [DONE]''
        \<and> P (drop 6 (trim line)) = None \<longrightarrow>
        process_line P J st line = Some ([], st)
        \<and> process_lines P J st (line # lines) = process_lines P J st lines)
   \<and> (\<forall>json. startsWith (trim line) ''data: '' \<and> trim line \<noteq> ''data: [DONE]''
        \<and> P (drop 6 (trim line)) = Some json \<longrightarrow>
        process_line P J st line = Some (handle_json J st json))"
proof (intro conjI impI allI)
  show "read_loop P J [] [] reads
     = fst (process_lines P J [] (butlast (split (CHR 0x0A) (concat reads))))"
    using read_loop_lines [of "[]" P J "[]" reads] by simp
next
  assume a: "\<not> startsWith (trim line) ''data: ''"
  then show l: "process_line P J st line = Some ([], st)" by (rule process_line_not_data)
  then show "process_lines P J st (line # lines) = process_lines P J st lines"
    by (rule process_lines_skip)
next
  assume a: "trim line = ''data: [DONE]''"
  then show l: "process_line P J st line = None" by (rule process_line_done)
  then show "process_lines P J st (line # lines) = ([], None)" by simp
  from a show "process_lines P J st (before @ line # lines) = process_lines P J st (before @ [line])"
    by (rule process_lines_stop)
next
  assume a: "startsWith (trim line) ''data: '' \<and> trim line \<noteq> ''data: [DONE]''
        \<and> P (drop 6 (trim line)) = None"
  then show l: "process_line P J st line = Some ([], st)" by (simp add: process_line_bad_json)
  then show "process_lines P J st (line # lines) = process_lines P J st lines"
    by (rule process_lines_skip)
next
  fix json
  assume "startsWith (trim line) ''data: '' \<and> trim line \<noteq> ''data: [DONE]''
        \<and> P (drop 6 (trim line)) = Some json"
  then show "process_line P J st line = Some (handle_json J st json)"
    by (simp add: process_line_def Let_def)
qed

text \<open>
  The theorem on concrete input: a malformed data line, then a well-formed one cut in two by
  the reads, then the terminator, then a data line that is never processed; and on single
  lines.
\<close>

theorem C8_witness:
  "read_loop hi_parser never_parses [] []
      [''data: {not json'' @ [CHR 0x0A] @ ''da'',
       ''ta: '' @ hi_json @ [CHR 0x0A] @ ''data: [DONE]'' @ [CHR 0x0A] @ ''data: '' @ hi_json
         @ [CHR 0x0A]]
     = [hi_chunk]
   \<and> process_line hi_parser never_parses [] '': keep-alive'' = Some ([], [])
   \<and> process_line hi_parser never_parses [] (''data: [DONE]'' @ [CHR 0x0D]) = None
   \<and> process_line hi_parser never_parses [] ''data: {not json'' = Some ([], [])
   \<and> process_line hi_parser never_parses [] (''data: '' @ hi_json) = Some ([hi_chunk], [])"
proof -
  note t = C8_stream_parser [where P = hi_parser and J = never_parses and st = "[]"]
  have w1: "read_loop hi_parser never_parses [] []
      [''data: {not json'' @ [CHR 0x0A] @ ''da'',
       ''ta: '' @ hi_json @ [CHR 0x0A] @ ''data: [DONE]'' @ [CHR 0x0A] @ ''data: '' @ hi_json
         @ [CHR 0x0A]]
     = [hi_chunk]"
    unfolding t [THEN conjunct1]
    by (simp add: process_line_def Let_def trim_def is_ws_def startsWith_def hi_parser_def handle_json_def
        truthy_def)
  have w2: "process_line hi_parser never_parses [] '': keep-alive'' = Some ([], [])"
    using t [where line = "'': keep-alive''", THEN conjunct2, THEN conjunct1]
    by (simp add: trim_def is_ws_def startsWith_def hi_parser_def)
  have w3: "process_line hi_parser never_parses [] (''data: [DONE]'' @ [CHR 0x0D]) = None"
    using t [where line = "''data: [DONE]'' @ [CHR 0x0D]", THEN conjunct2, THEN conjunct2,
        THEN conjunct1]
    by (simp add: trim_def is_ws_def)
  have w4: "process_line hi_parser never_parses [] ''data: {not json'' = Some ([], [])"
    using t [where line = "''data: {not json''", THEN conjunct2, THEN conjunct2,
        THEN conjunct2, THEN conjunct1]
    by (simp add: trim_def is_ws_def startsWith_def hi_parser_def)
  have w5: "process_line hi_parser never_parses [] (''data: '' @ hi_json) = Some ([hi_chunk], [])"
    using t [where line = "''data: '' @ hi_json", THEN conjunct2, THEN conjunct2,
        THEN conjunct2, THEN conjunct2, THEN spec,
        of "\<lparr>choices = Some [Some \<lparr>delta_content = Some ''hi'', delta_tool_calls = None\<rparr>]\<rparr>"]
    by (simp add: trim_def is_ws_def startsWith_def hi_parser_def handle_json_def truthy_def)
  show ?thesis by (intro conjI w1 w2 w3 w4 w5)
qed

text \<open>
  C8 as written fails: a line with a leading space does not start with \<open>data: \<close>, yet it is
  not ignored, since the test is made on the trimmed line.
\<close>

theorem C8_counterexample:
  "\<not> startsWith ('' data: '' @ hi_json) ''data: ''
   \<and> process_line hi_parser never_parses [] ('' data: '' @ hi_json) = Some ([hi_chunk], [])"
  by (simp add: process_line_def Let_def trim_def is_ws_def startsWith_def hi_parser_def handle_json_def truthy_def)

section \<open>Properties of the turn orchestrator\<close>

subsection \<open>Folding the stream into the pending node\<close>

lemma consume_chunks_snoc:
  "consume_chunks i state (chunks @ [c]) = consume_chunk i (consume_chunks i state chunks) c"
  by (simp add: consume_chunks_def)

lemma patch_stored: "m k = Some n \<Longrightarrow> patch m k f = m(k \<mapsto> f n)"
  by (simp add: patch_def)

lemma map_filter_snoc:
  "List.map_filter f (xs @ [x]) =
     List.map_filter f xs @ (case f x of None \<Rightarrow> [] | Some y \<Rightarrow> [y])"
  by (simp add: List.map_filter_def split: option.splits)

lemma consume_chunk_stored:
  assumes "m i = Some n"
  shows "consume_chunk i (t, cs, m) c =
     (t @ (case textDelta c of None \<Rightarrow> [] | Some d \<Rightarrow> d),
      (case chunk_toolCalls c of None \<Rightarrow> cs | Some tcs \<Rightarrow> tcs),
      m(i \<mapsto> n\<lparr>content := Some (t @ (case textDelta c of None \<Rightarrow> [] | Some d \<Rightarrow> d)),
                  toolCalls := (if (case chunk_toolCalls c of None \<Rightarrow> cs | Some tcs \<Rightarrow> tcs) = []
                                then None
                                else Some (case chunk_toolCalls c of None \<Rightarrow> cs
                                           | Some tcs \<Rightarrow> tcs))\<rparr>))"
proof -
  have "(if truthy (textDelta c) then t @ the (textDelta c) else t)
      = t @ (case textDelta c of None \<Rightarrow> [] | Some d \<Rightarrow> d)"
    by (cases "textDelta c") (simp_all add: truthy_def)
  then show ?thesis
    using assms by (simp add: consume_chunk_def patch_stored Let_def)
qed

lemma consume_chunks_result:
  assumes "m i = Some pending"
  shows "consume_chunks i (text0, calls0, m) chunks =
     (text0 @ concat (map (\<lambda>c. case textDelta c of None \<Rightarrow> [] | Some t \<Rightarrow> t) chunks),
      last (calls0 # List.map_filter chunk_toolCalls chunks),
      (if chunks = [] then m
       else m(i \<mapsto> pending\<lparr>
              content := Some (text0 @ concat (map (\<lambda>c. case textDelta c of None \<Rightarrow> []
                                                          | Some t \<Rightarrow> t) chunks)),
              toolCalls := (if last (calls0 # List.map_filter chunk_toolCalls chunks) = []
                            then None
                            else Some (last (calls0 # List.map_filter chunk_toolCalls chunks)))
            \<rparr>)))"
proof (induction chunks rule: rev_induct)
  case Nil
  show ?case by (simp add: consume_chunks_def List.map_filter_def)
next
  case (snoc c chunks)
  let ?T = "text0 @ concat (map (\<lambda>c. case textDelta c of None \<Rightarrow> [] | Some t \<Rightarrow> t) chunks)"
  let ?C = "last (calls0 # List.map_filter chunk_toolCalls chunks)"
  let ?T' = "text0 @ concat (map (\<lambda>c. case textDelta c of None \<Rightarrow> [] | Some t \<Rightarrow> t)
                                (chunks @ [c]))"
  let ?C' = "last (calls0 # List.map_filter chunk_toolCalls (chunks @ [c]))"
  have t': "?T @ (case textDelta c of None \<Rightarrow> [] | Some d \<Rightarrow> d) = ?T'" by simp
  have c': "(case chunk_toolCalls c of None \<Rightarrow> ?C | Some tcs \<Rightarrow> tcs) = ?C'"
    by (cases "chunk_toolCalls c") (simp_all add: map_filter_snoc)
  obtain M n where st: "consume_chunks i (text0, calls0, m) chunks = (?T, ?C, M)"
    and Mi: "M i = Some n"
    and upd: "\<And>x y. M(i \<mapsto> n\<lparr>content := x, toolCalls := y\<rparr>)
                    = m(i \<mapsto> pending\<lparr>content := x, toolCalls := y\<rparr>)"
  proof (cases "chunks = []")
    case True
    have 1: "consume_chunks i (text0, calls0, m) chunks = (?T, ?C, m)"
      using snoc.IH True by simp
    show ?thesis by (rule that [OF 1 assms]) simp
  next
    case False
    let ?n = "pending\<lparr>content := Some ?T, toolCalls := (if ?C = [] then None else Some ?C)\<rparr>"
    have 1: "consume_chunks i (text0, calls0, m) chunks = (?T, ?C, m(i \<mapsto> ?n))"
      using snoc.IH by (simp only: False if_False)
    have 2: "(m(i \<mapsto> ?n)) i = Some ?n" by simp
    have 3: "(m(i \<mapsto> ?n))(i \<mapsto> ?n\<lparr>content := x, toolCalls := y\<rparr>)
        = m(i \<mapsto> pending\<lparr>content := x, toolCalls := y\<rparr>)" for x y
      by simp
    show ?thesis by (rule that [OF 1 2 3])
  qed
  have "consume_chunks i (text0, calls0, m) (chunks @ [c]) = consume_chunk i (?T, ?C, M) c"
    unfolding consume_chunks_snoc st ..
  also have "\<dots> = (?T', ?C',
      M(i \<mapsto> n\<lparr>content := Some ?T', toolCalls := (if ?C' = [] then None else Some ?C')\<rparr>))"
    unfolding consume_chunk_stored [where m = M and i = i, OF Mi] t' c' ..
  also have "\<dots> = (?T', ?C',
      m(i \<mapsto> pending\<lparr>content := Some ?T',
                        toolCalls := (if ?C' = [] then None else Some ?C')\<rparr>))"
    unfolding upd ..
  finally have fin: "consume_chunks i (text0, calls0, m) (chunks @ [c]) = (?T', ?C',
      m(i \<mapsto> pending\<lparr>content := Some ?T',
                        toolCalls := (if ?C' = [] then None else Some ?C')\<rparr>))" .
  have ne: "(chunks @ [c] = []) = False" by simp
  show ?case unfolding ne if_False by (rule fin)
qed

text \<open>
  C3, as amended. For every streamed turn with at least one chunk, the text stored on the
  pending model node is the concatenation of the text deltas, in order, and the tool calls
  stored on it are the last snapshot that a chunk carried when that snapshot is not empty:
  the value of one chunk, never a merge of several. When that snapshot is empty, or when no
  chunk carried one, the stored \<open>toolCalls\<close> is \<open>undefined\<close>.
\<close>

theorem C3_snapshot_replacement:
  assumes "m modelMsgId = Some pending" and "chunks \<noteq> []"
  shows "consume_chunks modelMsgId ([], [], m) chunks =
     (concat (map (\<lambda>c. case textDelta c of None \<Rightarrow> [] | Some t \<Rightarrow> t) chunks),
      (if List.map_filter chunk_toolCalls chunks = [] then []
       else last (List.map_filter chunk_toolCalls chunks)),
      m(modelMsgId \<mapsto> pending\<lparr>
          content := Some (concat (map (\<lambda>c. case textDelta c of None \<Rightarrow> []
                                              | Some t \<Rightarrow> t) chunks)),
          toolCalls := (if List.map_filter chunk_toolCalls chunks = []
                           \<or> last (List.map_filter chunk_toolCalls chunks) = []
                        then None
                        else Some (last (List.map_filter chunk_toolCalls chunks)))\<rparr>))"
  using consume_chunks_result [where m = m and i = modelMsgId, OF assms(1), of "[]" "[]" chunks]
    assms(2)
  by (cases "List.map_filter chunk_toolCalls chunks = []") simp_all

text \<open>
  The theorem on three chunks: a text delta with a first snapshot, a text delta alone, and a
  second snapshot with two calls.
\<close>

theorem C3_witness:
  "consume_chunks ''m1'' ([], [], [''m1'' \<mapsto> pending_node ''m1'' ''u1''])
     [\<lparr>textDelta = Some ''Hel'', chunk_toolCalls = Some [weather_call ''c1'' ''NYC'']\<rparr>,
      \<lparr>textDelta = Some ''lo'', chunk_toolCalls = None\<rparr>,
      \<lparr>textDelta = None,
        chunk_toolCalls = Some [weather_call ''c1'' ''NYC'', weather_call ''c2'' ''LA'']\<rparr>]
   = (''Hello'', [weather_call ''c1'' ''NYC'', weather_call ''c2'' ''LA''],
      [''m1'' \<mapsto> \<lparr>msg_id = ''m1'', role = Model, content = Some ''Hello'',
          toolCalls = Some [weather_call ''c1'' ''NYC'', weather_call ''c2'' ''LA''],
          toolResults = None, timestamp = 0, parentId = Some ''u1'', childrenIds = []\<rparr>])"
proof -
  have s: "[''m1'' \<mapsto> pending_node ''m1'' ''u1''] ''m1'' = Some (pending_node ''m1'' ''u1'')"
    by simp
  have n: "[\<lparr>textDelta = Some ''Hel'', chunk_toolCalls = Some [weather_call ''c1'' ''NYC'']\<rparr>,
      \<lparr>textDelta = Some ''lo'', chunk_toolCalls = None\<rparr>,
      \<lparr>textDelta = None,
        chunk_toolCalls = Some [weather_call ''c1'' ''NYC'', weather_call ''c2'' ''LA'']\<rparr>] \<noteq> []"
    by simp
  show ?thesis
    unfolding C3_snapshot_replacement [where m = "[''m1'' \<mapsto> pending_node ''m1'' ''u1'']"
        and modelMsgId = "''m1''", OF s n]
    by (simp add: List.map_filter_def)
qed

text \<open>
  C3 as written fails: the only snapshot of the stream is the empty one, which the parser
  yields for a delta with an empty \<open>tool_calls\<close> array, and the stored \<open>toolCalls\<close> is
  \<open>undefined\<close>, not that snapshot.
\<close>

theorem C3_counterexample:
  "handle_json never_parses []
      \<lparr>choices = Some [Some \<lparr>delta_content = None, delta_tool_calls = Some []\<rparr>]\<rparr>
     = ([\<lparr>textDelta = None, chunk_toolCalls = Some []\<rparr>], [])
   \<and> List.map_filter chunk_toolCalls [\<lparr>textDelta = None, chunk_toolCalls = Some []\<rparr>] = [[]]
   \<and> consume_chunks ''m1'' ([], [], [''m1'' \<mapsto> pending_node ''m1'' ''u1''])
        [\<lparr>textDelta = None, chunk_toolCalls = Some []\<rparr>]
     = ([], [], [''m1'' \<mapsto> \<lparr>msg_id = ''m1'', role = Model, content = Some [],
          toolCalls = None, toolResults = None, timestamp = 0, parentId = Some ''u1'',
          childrenIds = []\<rparr>])"
  by (simp add: handle_json_def snapshot_def truthy_def List.map_filter_def consume_chunks_def
      consume_chunk_def patch_def Let_def)

subsection \<open>Classifying the tool calls\<close>

lemma auto_executable_iff:
  "auto_executable config tc = Some (tc', t) \<longleftrightarrow>
     tc' = tc \<and> find (\<lambda>t. fd_name (tool_definition t) = tc_name tc) (tools config) = Some t
     \<and> autoExecute t = Some True \<and> truthy (implementation t)"
  by (auto simp: auto_executable_def split: option.splits)

text \<open>
  C1 does not hold of the code: the lookup of the tool is made in all registered tools and
  does not look at \<open>active\<close>. The weather tool below is switched off, so it is not among the
  tools declared to the provider, and a call of it is put into the execution queue all the
  same.
\<close>

theorem C1_inactive_tool_is_queued:
  "active (weather_tool False (Some True)) = False
   \<and> map tool_definition
        (filter active (tools (one_model_config ''gemini'' ''key'' [weather_tool False (Some True)])))
      = []
   \<and> executionQueue (one_model_config ''gemini'' ''key'' [weather_tool False (Some True)])
        [weather_call ''c1'' ''NYC'']
      = [(weather_call ''c1'' ''NYC'', weather_tool False (Some True))]"
  by (simp add: executionQueue_def List.map_filter_def auto_executable_def truthy_def)

subsection \<open>Running the queue\<close>

text \<open>The result that the loop pushes for a call whose tool returned or threw a value.\<close>

lemma execute_queue_Returned:
  "run_tool w k (the (implementation toolConfig)) (tc_args tc) = Returned output
   \<Longrightarrow> execute_queue w k ((tc, toolConfig) # queue)
       = (\<lparr>tr_callId = tc_id tc, tr_result = JSON_stringify output\<rparr>
            # fst (execute_queue w (Suc k) queue),
          snd (execute_queue w (Suc k) queue))"
  by (simp add: split_beta)

lemma execute_queue_Threw:
  "run_tool w k (the (implementation toolConfig)) (tc_args tc) = Threw e
   \<Longrightarrow> message_of e = Inr message
   \<Longrightarrow> execute_queue w k ((tc, toolConfig) # queue)
       = (\<lparr>tr_callId = tc_id tc, tr_result = JSON_stringify (JObj [(''error'', message)])\<rparr>
            # fst (execute_queue w (Suc k) queue),
          snd (execute_queue w (Suc k) queue))"
  by (simp add: split_beta)

lemma execute_queue_Threw_nullish:
  "run_tool w k (the (implementation toolConfig)) (tc_args tc) = Threw e
   \<Longrightarrow> e = JNull \<or> e = JUndefined
   \<Longrightarrow> execute_queue w k ((tc, toolConfig) # queue)
       = ([], Some (ReadProperty e ''message''))"
  by auto

lemma message_of_Inl:
  "message_of e = Inl err \<longleftrightarrow> err = ReadProperty e ''message'' \<and> (e = JNull \<or> e = JUndefined)"
  by (cases e) auto

lemma execute_queue_length:
  "length (fst (execute_queue w k queue)) \<le> length queue
   \<and> (snd (execute_queue w k queue) = None \<longrightarrow>
        length (fst (execute_queue w k queue)) = length queue)
   \<and> (snd (execute_queue w k queue) \<noteq> None \<longrightarrow>
        length (fst (execute_queue w k queue)) < length queue)"
proof (induction queue arbitrary: k)
  case Nil
  show ?case by simp
next
  case (Cons item queue)
  obtain tc toolConfig where item: "item = (tc, toolConfig)" by (cases item)
  obtain results failure where rest: "execute_queue w (Suc k) queue = (results, failure)"
    by (cases "execute_queue w (Suc k) queue")
  with Cons [of "Suc k"] have ih: "length results \<le> length queue"
      "failure = None \<longrightarrow> length results = length queue"
      "failure \<noteq> None \<longrightarrow> length results < length queue"
    by simp_all
  show ?case
  proof (cases "run_tool w k (the (implementation toolConfig)) (tc_args tc)")
    case (Returned out)
    with rest ih show ?thesis unfolding item by simp
  next
    case (Threw e)
    show ?thesis
    proof (cases "message_of e")
      case (Inl err)
      with Threw show ?thesis unfolding item by simp
    next
      case (Inr message)
      with Threw rest ih show ?thesis unfolding item by simp
    qed
  qed
qed

text \<open>
  As long as no tool throws \<open>null\<close> or \<open>undefined\<close>, there is one result per queued call:
  the \<open>JSON.stringify\<close> of what the source returned, or of \<open>{error: e.message}\<close> for what
  it threw.
\<close>

lemma execute_queue_results:
  assumes "\<forall>j tc toolConfig. (j, tc, toolConfig) \<in> set (enumerate k queue) \<longrightarrow>
             run_tool w j (the (implementation toolConfig)) (tc_args tc) \<noteq> Threw JNull
             \<and> run_tool w j (the (implementation toolConfig)) (tc_args tc) \<noteq> Threw JUndefined"
  shows "execute_queue w k queue =
     (map (\<lambda>(j, tc, toolConfig).
            \<lparr>tr_callId = tc_id tc,
             tr_result =
               (case run_tool w j (the (implementation toolConfig)) (tc_args tc) of
                  Returned output \<Rightarrow> JSON_stringify output
                | Threw e \<Rightarrow> JSON_stringify (JObj [(''error'', projr (message_of e))]))\<rparr>)
         (enumerate k queue), None)"
  using assms
proof (induction queue arbitrary: k)
  case Nil
  show ?case by simp
next
  case (Cons item queue)
  obtain tc toolConfig where item: "item = (tc, toolConfig)" by (cases item)
  from Cons.prems have rest: "\<forall>j tc toolConfig. (j, tc, toolConfig) \<in> set (enumerate (Suc k) queue) \<longrightarrow>
             run_tool w j (the (implementation toolConfig)) (tc_args tc) \<noteq> Threw JNull
             \<and> run_tool w j (the (implementation toolConfig)) (tc_args tc) \<noteq> Threw JUndefined"
    by simp
  from Cons.prems item
  have here: "run_tool w k (the (implementation toolConfig)) (tc_args tc) \<noteq> Threw JNull"
      "run_tool w k (the (implementation toolConfig)) (tc_args tc) \<noteq> Threw JUndefined"
    by simp_all
  note ih = Cons.IH [OF rest]
  show ?case
  proof (cases "run_tool w k (the (implementation toolConfig)) (tc_args tc)")
    case (Returned out)
    then show ?thesis unfolding item by (simp add: ih)
  next
    case (Threw e)
    with here have "e \<noteq> JNull" "e \<noteq> JUndefined" by simp_all
    then obtain message where "message_of e = Inr message" by (cases e) simp_all
    with Threw show ?thesis unfolding item by (simp add: ih)
  qed
qed

lemma quote_not_same: "quote s \<noteq> s"
proof
  assume "quote s = s"
  then have "length (quote s) = length s" by simp
  moreover have "length (concat (map escape_char s)) \<ge> length s"
  proof (induction s)
    case Nil
    show ?case by simp
  next
    case (Cons c cs)
    have "length (escape_char c) \<ge> 1" by (simp add: escape_char_def)
    with Cons show ?case by simp
  qed
  ultimately show False by (simp add: quote_def)
qed

lemma JSON_stringify_examples:
  "JSON_stringify (JStr s) = Some ([CHR 0x22] @ concat (map escape_char s) @ [CHR 0x22])"
  "JSON_stringify (JStr s) \<noteq> Some s"
  "JSON_stringify (JStr ''sunny'') = Some ([CHR 0x22] @ ''sunny'' @ [CHR 0x22])"
  "JSON_stringify (JObj [(''error'', JStr ''boom'')])
     = Some (''{'' @ [CHR 0x22] @ ''error'' @ [CHR 0x22] @ '':'' @ [CHR 0x22] @ ''boom''
             @ [CHR 0x22] @ ''}'')"
  "JSON_stringify (JObj [(''error'', JUndefined)]) = Some ''{}''"
  "JSON_stringify JUndefined = None"
  using quote_not_same [of s]
  by (simp_all add: quote_def escape_char_def)

lemma JSON_stringify_numbers:
  "JSON_stringify (JNum False 42) = Some ''42''"
  "JSON_stringify (JNum True 7) = Some ''-7''"
  "JSON_stringify (JNum True 0) = Some ''0''"
  "JSON_stringify (JArr [JNum False 1, JUndefined, JBool True, JNull])
     = Some ''[1,null,true,null]''"
  by code_simp+

text \<open>
  C5 does not hold of the code: the \<open>catch\<close> inside the loop reads \<open>e.message\<close>, and for a
  tool that throws \<open>null\<close> that raises a \<open>TypeError\<close> inside the \<open>catch\<close>. The failure of
  the tool is not captured as a result of its call: the loop is left, the weather tool queued
  after it is not run, no tool node is appended, and the turn ends in its \<open>catch\<close> block,
  with the error text as the content of the model node.
\<close>

theorem C5_thrown_null_aborts_turn:
  "executionQueue crash_config [crash_call ''c1'', weather_call ''c2'' ''NYC'']
      = [(crash_call ''c1'', crash_tool), (weather_call ''c2'' ''NYC'', sunny_tool)]
   \<and> run_tool crash_world 1 (the (implementation crash_tool)) (tc_args (crash_call ''c1''))
      = Threw JNull
   \<and> execute_queue crash_world 1
        [(crash_call ''c1'', crash_tool), (weather_call ''c2'' ''NYC'', sunny_tool)]
      = ([], Some (ReadProperty JNull ''message''))
   \<and> turn_step crash_world crash_config [''u1'' \<mapsto> user_node ''u1'' None []] ''u1'' 0
      = Some (Idle after_crash ''m1'')
   \<and> processConversationTurn crash_world crash_config
        [''u1'' \<mapsto> user_node ''u1'' None []] ''u1'' 0
      = Some (Inr (after_crash, ''m1''))
   \<and> dom after_crash = {''u1'', ''m1''}"
proof -
  let ?tcs = "[crash_call ''c1'', weather_call ''c2'' ''NYC'']"
  let ?queue = "[(crash_call ''c1'', crash_tool), (weather_call ''c2'' ''NYC'', sunny_tool)]"
  have q: "executionQueue crash_config ?tcs = ?queue"
    by (simp add: executionQueue_def List.map_filter_def auto_executable_def truthy_def)
  have r: "run_tool crash_world k (the (implementation crash_tool)) (tc_args (crash_call ''c1''))
      = Threw JNull" for k
    by (simp add: run_example_def)
  have e: "execute_queue crash_world k ?queue = ([], Some (ReadProperty JNull ''message''))"
    for k
    using r by (rule execute_queue_Threw_nullish) simp
  have t: "turn_step crash_world crash_config [''u1'' \<mapsto> user_node ''u1'' None []] ''u1'' 0
      = Some (Idle after_crash ''m1'')"
    by (simp add: turn_step_def initialModelMsg_def appendToTree_def truthy_def getThread_def
        getThread_loop.simps lookup_def sendMessageStream_def buildSystemInstruction_def
        consume_chunks_def consume_chunk_def patch_def Let_def tool_dispatch_def q e
        fail_turn_def errorMessage_def del: execute_queue.simps;
        auto simp: fun_eq_iff)
  have p: "processConversationTurn crash_world crash_config
        [''u1'' \<mapsto> user_node ''u1'' None []] ''u1'' 0
      = Some (Inr (after_crash, ''m1''))"
    by (subst processConversationTurn.simps) (simp only: t option.case TurnEnd.case)
  have d: "dom after_crash = {''u1'', ''m1''}" by auto
  show ?thesis by (intro conjI q r e t p d)
qed

subsection \<open>Continuing the turn\<close>


lemma execute_queue_Nil: "fst (execute_queue w k queue) = [] \<and> snd (execute_queue w k queue) = None
    \<longleftrightarrow> queue = []"
  using execute_queue_length [of w k queue] by (cases queue) auto

lemma appendToTree_stores:
  assumes "appendToTree p msg m = Inr m'"
  shows "m' (msg_id msg) \<noteq> None" and "dom m' = insert (msg_id msg) (dom m)"
  using assms by (cases rule: appendToTree_cases; auto split: if_splits)+



lemma tool_dispatch_no_calls:
  "m modelMsgId = Some finalMsg \<Longrightarrow> toolCalls finalMsg = None \<or> toolCalls finalMsg = Some []
   \<Longrightarrow> tool_dispatch w config m modelMsgId k = Idle m modelMsgId"
  by (auto simp: tool_dispatch_def lookup_stored)








text \<open>After a stream that ends without an error, the pass goes on with the tool dispatch.\<close>

lemma turn_step_dispatch:
  assumes "appendToTree (Some startHeadId)
             (initialModelMsg (randomUUID w k) (now w k) startHeadId) startMap = Inr currentMap"
    and "getThread currentMap (Some startHeadId) = Some historyForApi"
    and "sendMessageStream config historyForApi = Inr stream"
    and "open_stream w k stream = (chunks, None)"
  shows "turn_step w config startMap startHeadId k
       = Some (tool_dispatch w config
                 (snd (snd (consume_chunks (randomUUID w k) ([], [], currentMap) chunks)))
                 (randomUUID w k) (Suc k))"
  using assms by (simp add: turn_step_def Let_def split: prod.splits)







subsection \<open>Failures\<close>

lemma consume_chunks_stored:
  assumes "m i = Some n"
  shows "\<exists>t c m' n'. consume_chunks i ([], [], m) chunks = (t, c, m') \<and> m' i = Some n'"
  unfolding consume_chunks_result [where m = m and i = i, OF assms] using assms by simp

lemma fail_turn_stored:
  "m i = Some n \<Longrightarrow> fail_turn i message m i = Some (n\<lparr>content := Some (errorMessage message)\<rparr>)"
  by (simp add: fail_turn_def patch_def)

lemma errorMessage_text:
  "errorMessage message \<noteq> [] \<and> take 7 (errorMessage message) = ''Error: ''"
  by (simp add: errorMessage_def)

lemma turn_step_send_failed:
  assumes "appendToTree (Some startHeadId)
             (initialModelMsg (randomUUID w k) (now w k) startHeadId) startMap = Inr currentMap"
    and "getThread currentMap (Some startHeadId) = Some history"
    and "sendMessageStream config history = Inl message"
  shows "turn_failed_with w config startMap startHeadId k (Some message)"
proof -
  let ?id = "randomUUID w k"
  let ?m = currentMap
  obtain n where n: "?m ?id = Some n"
    using appendToTree_stores(1) [OF assms(1)] by (auto simp: initialModelMsg_def)
  have ts: "turn_step w config startMap startHeadId k
      = Some (Idle (fail_turn ?id (Some message) ?m) ?id)"
    using assms by (simp add: turn_step_def Let_def)
  from ts have pc: "processConversationTurn w config startMap startHeadId k
      = Some (Inr (fail_turn ?id (Some message) ?m, ?id))"
    by (subst processConversationTurn.simps) simp
  show ?thesis
    unfolding turn_failed_with_def
  proof (intro exI conjI)
    show "turn_step w config startMap startHeadId k
        = Some (Idle (fail_turn ?id (Some message) ?m) ?id)" by (rule ts)
    show "processConversationTurn w config startMap startHeadId k
        = Some (Inr (fail_turn ?id (Some message) ?m, ?id))" by (rule pc)
    show "fail_turn ?id (Some message) ?m ?id
        = Some (n\<lparr>content := Some (errorMessage (Some message))\<rparr>)"
      using n by (rule fail_turn_stored)
    show "content (n\<lparr>content := Some (errorMessage (Some message))\<rparr>)
        = Some (errorMessage (Some message))" by simp
  qed
qed

lemma turn_step_stream_failed:
  assumes "appendToTree (Some startHeadId)
             (initialModelMsg (randomUUID w k) (now w k) startHeadId) startMap = Inr currentMap"
    and "getThread currentMap (Some startHeadId) = Some history"
    and "sendMessageStream config history = Inr stream"
    and "open_stream w k stream = (chunks, Some message)"
  shows "turn_failed_with w config startMap startHeadId k message"
proof -
  let ?id = "randomUUID w k"
  let ?m = currentMap
  obtain n where n: "?m ?id = Some n"
    using appendToTree_stores(1) [OF assms(1)] by (auto simp: initialModelMsg_def)
  from consume_chunks_stored [where m = ?m and i = ?id, OF n, of chunks]
  obtain t c m' n' where cc: "consume_chunks ?id ([], [], ?m) chunks = (t, c, m')"
    and n': "m' ?id = Some n'" by blast
  have ts: "turn_step w config startMap startHeadId k = Some (Idle (fail_turn ?id message m') ?id)"
    using assms cc by (simp add: turn_step_def Let_def)
  from ts have pc: "processConversationTurn w config startMap startHeadId k
      = Some (Inr (fail_turn ?id message m', ?id))"
    by (subst processConversationTurn.simps) simp
  show ?thesis
    unfolding turn_failed_with_def
  proof (intro exI conjI)
    show "turn_step w config startMap startHeadId k = Some (Idle (fail_turn ?id message m') ?id)"
      by (rule ts)
    show "processConversationTurn w config startMap startHeadId k
        = Some (Inr (fail_turn ?id message m', ?id))" by (rule pc)
    show "fail_turn ?id message m' ?id = Some (n'\<lparr>content := Some (errorMessage message)\<rparr>)"
      using n' by (rule fail_turn_stored)
    show "content (n'\<lparr>content := Some (errorMessage message)\<rparr>) = Some (errorMessage message)"
      by simp
  qed
qed

text \<open>
  C6. Let the placeholder node be appended and the projection of the thread for the request
  return, as they do when the turn starts from a stored head of a tree built by appending.
  Every failure of
  \<open>sendMessageStream\<close> (there is no active model, or its API key is empty) and every failure
  of the stream, after any number of chunks (a failed request, a response with a non-success
  status, which \<open>streamOpenAI\<close> turns into an error carrying the status), ends the turn
  without tool dispatch and without continuation, with the pending model node as the head and
  with the error text, which starts with \<open>Error: \<close> and is never empty, as the content of
  that node.
\<close>

theorem C6_failure_visible:
  assumes "appendToTree (Some startHeadId)
             (initialModelMsg (randomUUID w k) (now w k) startHeadId) startMap = Inr currentMap"
    and "getThread currentMap (Some startHeadId) = Some history"
  shows "(\<forall>message. sendMessageStream config history = Inl message \<longrightarrow>
            turn_failed_with w config startMap startHeadId k (Some message))
       \<and> (\<forall>stream chunks message.
            sendMessageStream config history = Inr stream
            \<and> open_stream w k stream = (chunks, Some message) \<longrightarrow>
            turn_failed_with w config startMap startHeadId k message)
       \<and> (find (\<lambda>m. model_id m = activeModelId config) (models config) = None \<longrightarrow>
            sendMessageStream config history = Inl ''No active model selected.'')
       \<and> (\<forall>am. find (\<lambda>m. model_id m = activeModelId config) (models config) = Some am
                 \<and> apiKey am = [] \<longrightarrow>
            sendMessageStream config history
              = Inl ''API Key is missing for the selected model.'')
       \<and> (\<forall>parse_line JSON_parse message.
            streamOpenAI parse_line JSON_parse (FetchFailed message) = ([], Some message))
       \<and> (\<forall>parse_line JSON_parse status statusText errJsonMessage body.
            streamOpenAI parse_line JSON_parse
                (Response False status statusText errJsonMessage body)
              = ([], Some (Some (''OpenAI API Error ('' @ show_nat status @ ''): ''
                                 @ (if truthy errJsonMessage then the errJsonMessage
                                    else statusText)))))
       \<and> (\<forall>message. errorMessage message \<noteq> [] \<and> take 7 (errorMessage message) = ''Error: '')"
proof -
  have 1: "\<forall>message. sendMessageStream config history = Inl message \<longrightarrow>
            turn_failed_with w config startMap startHeadId k (Some message)"
    using turn_step_send_failed [OF assms] by blast
  have 2: "\<forall>stream chunks message.
            sendMessageStream config history = Inr stream
            \<and> open_stream w k stream = (chunks, Some message) \<longrightarrow>
            turn_failed_with w config startMap startHeadId k message"
    using turn_step_stream_failed [OF assms] by blast
  have 3: "find (\<lambda>m. model_id m = activeModelId config) (models config) = None \<longrightarrow>
            sendMessageStream config history = Inl ''No active model selected.''"
    by (simp add: sendMessageStream_def)
  have 4: "\<forall>am. find (\<lambda>m. model_id m = activeModelId config) (models config) = Some am
                 \<and> apiKey am = [] \<longrightarrow>
            sendMessageStream config history
              = Inl ''API Key is missing for the selected model.''"
    by (simp add: sendMessageStream_def)
  have 5: "\<forall>parse_line JSON_parse message.
            streamOpenAI parse_line JSON_parse (FetchFailed message) = ([], Some message)"
    by (simp add: streamOpenAI_def)
  have 6: "\<forall>parse_line JSON_parse status statusText errJsonMessage body.
            streamOpenAI parse_line JSON_parse
                (Response False status statusText errJsonMessage body)
              = ([], Some (Some (''OpenAI API Error ('' @ show_nat status @ ''): ''
                                 @ (if truthy errJsonMessage then the errJsonMessage
                                    else statusText))))"
    by (simp add: streamOpenAI_def)
  have 7: "\<forall>message. errorMessage message \<noteq> [] \<and> take 7 (errorMessage message) = ''Error: ''"
    using errorMessage_text by blast
  show ?thesis by (intro conjI 1 2 3 4 5 6 7)
qed

lemma failing_start:
  "appendToTree (Some ''u1'')
      (initialModelMsg (randomUUID failing_world 0) (now failing_world 0) ''u1'')
      [''u1'' \<mapsto> user_node ''u1'' None []]
   = Inr [''u1'' \<mapsto> user_node ''u1'' None [''m1''], ''m1'' \<mapsto> pending_node ''m1'' ''u1'']"
  by (simp add: initialModelMsg_def appendToTree_def Let_def truthy_def lookup_def;
      auto simp: fun_eq_iff)

lemma failing_history:
  "getThread [''u1'' \<mapsto> user_node ''u1'' None [''m1''], ''m1'' \<mapsto> pending_node ''m1'' ''u1'']
     (Some ''u1'')
   = Some [Stored (user_node ''u1'' None [''m1''])]"
  by (simp add: truthy_def getThread_def getThread_loop.simps lookup_def)

theorem C6_witness:
  "turn_failed_with failing_world no_model_config [''u1'' \<mapsto> user_node ''u1'' None []] ''u1'' 0
     (Some ''No active model selected.'')
   \<and> turn_failed_with failing_world (one_model_config ''openai'' [] [])
       [''u1'' \<mapsto> user_node ''u1'' None []] ''u1'' 0
       (Some ''API Key is missing for the selected model.'')
   \<and> turn_failed_with failing_world (one_model_config ''gemini'' ''key'' [])
       [''u1'' \<mapsto> user_node ''u1'' None []] ''u1'' 0 (Some ''Failed to fetch'')
   \<and> errorMessage (Some ''Failed to fetch'') = ''Error: Failed to fetch''
   \<and> errorMessage None = ''Error: Unknown error occurred''"
proof -
  note t = C6_failure_visible [where w = failing_world and k = 0 and startHeadId = "''u1''"
      and startMap = "[''u1'' \<mapsto> user_node ''u1'' None []]", OF failing_start failing_history]
  have f: "find (\<lambda>m. model_id m = activeModelId no_model_config) (models no_model_config) = None"
    by simp
  note send1 = t [where config = no_model_config, THEN conjunct2, THEN conjunct2,
      THEN conjunct1, THEN mp, OF f]
  note w1 = t [where config = no_model_config, THEN conjunct1, THEN spec, THEN mp, OF send1]
  have k: "find (\<lambda>m. model_id m = activeModelId (one_model_config ''openai'' [] []))
        (models (one_model_config ''openai'' [] []))
      = Some \<lparr>model_id = ''m1'', model_name = ''Model'', provider = ''openai'',
               modelId = ''model-1'', apiKey = [], baseUrl = None\<rparr>
      \<and> apiKey \<lparr>model_id = ''m1'', model_name = ''Model'', provider = ''openai'',
                 modelId = ''model-1'', apiKey = [], baseUrl = None\<rparr> = []"
    by simp
  note send2 = t [where config = "one_model_config ''openai'' [] []", THEN conjunct2,
      THEN conjunct2, THEN conjunct2, THEN conjunct1, THEN spec, THEN mp, OF k]
  note w2 = t [where config = "one_model_config ''openai'' [] []", THEN conjunct1, THEN spec,
      THEN mp, OF send2]
  have s: "sendMessageStream (one_model_config ''gemini'' ''key'' [])
        [Stored (user_node ''u1'' None [''m1''])]
      = Inr (StreamGemini \<lparr>model_id = ''m1'', model_name = ''Model'', provider = ''gemini'',
               modelId = ''model-1'', apiKey = ''key'', baseUrl = None\<rparr>
               [Stored (user_node ''u1'' None [''m1''])] ''You are a helpful AI assistant.'' [])
      \<and> open_stream failing_world 0
          (StreamGemini \<lparr>model_id = ''m1'', model_name = ''Model'', provider = ''gemini'',
               modelId = ''model-1'', apiKey = ''key'', baseUrl = None\<rparr>
               [Stored (user_node ''u1'' None [''m1''])] ''You are a helpful AI assistant.'' [])
        = ([\<lparr>textDelta = Some ''Hel'', chunk_toolCalls = None\<rparr>], Some (Some ''Failed to fetch''))"
    by (simp add: sendMessageStream_def buildSystemInstruction_def)
  note w3 = t [where config = "one_model_config ''gemini'' ''key'' []", THEN conjunct2,
      THEN conjunct1, THEN spec, THEN spec, THEN spec, THEN mp, OF s]
  have w4: "errorMessage (Some ''Failed to fetch'') = ''Error: Failed to fetch''"
    by (simp add: errorMessage_def truthy_def)
  have w5: "errorMessage None = ''Error: Unknown error occurred''"
    by (simp add: errorMessage_def truthy_def)
  show ?thesis by (intro conjI w1 w2 w3 w4 w5)
qed

end
